theory Spec2Isabelle
  imports Main "HOL-Library.Word" "HOL-Library.Monad_Syntax" "HOL-Library.AList"
begin

section \<open>Data model\<close>

text \<open>
  The extractor's data, as \<^verbatim>\<open>extractor.go\<close> uses it.  The Go type \<^verbatim>\<open>int\<close> is a
  64-bit two's complement integer on the platforms the tool is built for, so the counters
  are 64-bit words and \<open>+\<close> wraps.  A Go string is a byte sequence, here a \<open>char list\<close>.
  The package \<^verbatim>\<open>commit\<close> that declares the three structs is not part of the sources at
  hand; the fields are the ones \<^verbatim>\<open>extractor.go\<close> reads and writes.
\<close>

type_synonym go_int = "64 word"

record ChangedFile =
  Path :: string
  Insertions :: go_int
  Deletions :: go_int
  Language :: string

text \<open>
  \<^verbatim>\<open>Commit.Libraries\<close> is a Go map from language to identifier list.  The aggregator
  ranges over it, so it is an association list: the list order stands for whichever
  iteration order the Go runtime picks.
\<close>

record Commit =
  Hash :: string
  AuthorName :: string
  AuthorEmail :: string
  Date :: string
  ChangedFiles :: "ChangedFile list"
  Libraries :: "(string \<times> string list) list"

text \<open>
  A day bucket (\<^verbatim>\<open>commit.OptimizedCommitForExport\<close>).  Its \<^verbatim>\<open>Libraries\<close> map is only
  looked up and updated by key, so it is a partial function.
\<close>

record OptimizedCommitForExport =
  AuthorEmails :: "string list"
  Date :: string
  Languages :: "string list"
  Libraries :: "string \<rightharpoonup> string list"
  Insertions :: go_int
  Deletions :: go_int
  Commits :: go_int

text \<open>
  The fields of \<^verbatim>\<open>RepoExtractor\<close> that the analysis and the export read, and the
  collaborators from packages outside the sources at hand (obfuscation, language
  detection, the analyzer registry, the \<^verbatim>\<open>git show\<close> subprocess), taken as parameters.
  An analyzer returns its identifier list together with a flag that is true when it
  reports an error.
\<close>

record RepoExtractor =
  HashImportant :: bool
  SkipLibraries :: bool
  Obfuscate :: "OptimizedCommitForExport \<Rightarrow> OptimizedCommitForExport"
  ShouldUseFile :: "string \<Rightarrow> bool"
  DetectLanguageFromFile :: "string \<Rightarrow> string \<Rightarrow> string"
  DetectLanguageFromExtension :: "string \<Rightarrow> string"
  GetAnalyzer :: "string \<Rightarrow> (string \<Rightarrow> string list \<times> bool) option"
  getFileContent :: "string \<Rightarrow> string \<Rightarrow> string option"

section \<open>Day keys\<close>

subsection \<open>The standard library's \<^verbatim>\<open>time.Parse\<close> at the export layout\<close>

text \<open>
  \<^verbatim>\<open>getStartOfDayFromStringDate\<close> calls \<^verbatim>\<open>time.Parse\<close> with the fixed layout
  \<^verbatim>\<open>"2006-01-02 15:04:05 -0700"\<close>.  The functions below follow the standard
  library's parser at that layout, chunk by chunk: a four digit year, two digit month
  and day, an hour of one or two digits, two digit minute and second, an optional
  fractional second that is consumed although the layout has none, and a signed
  four digit zone offset.  A blank of the layout matches a non-empty run of blanks.
  The parsed value keeps the wall clock fields as written and the offset in seconds
  east of UTC; the nanosecond field is left out, the extractor never reads it.
\<close>

record Time =
  Year :: int
  Month :: int
  Day :: int
  Hour :: int
  Minute :: int
  Second :: int
  ZoneOffset :: int

definition isDigit :: "char \<Rightarrow> bool" where
  "isDigit c = (c \<in> set ''0123456789'')"

definition digitVal :: "char \<Rightarrow> int" where
  "digitVal c = int (of_char c) - 48"

fun getnum :: "string \<Rightarrow> bool \<Rightarrow> (int \<times> string) option" where
  "getnum [] fixed = None"
| "getnum [c0] fixed =
     (if \<not> isDigit c0 then None else if fixed then None else Some (digitVal c0, []))"
| "getnum (c0 # c1 # rest) fixed =
     (if \<not> isDigit c0 then None
      else if \<not> isDigit c1 then (if fixed then None else Some (digitVal c0, c1 # rest))
      else Some (digitVal c0 * 10 + digitVal c1, rest))"

definition parseLongYear :: "string \<Rightarrow> (int \<times> string) option" where
  "parseLongYear v =
     (if length v < 4 \<or> \<not> list_all isDigit (take 4 v) then None
      else Some (foldl (\<lambda>acc c. acc * 10 + digitVal c) 0 (take 4 v), drop 4 v))"

fun skipByte :: "char \<Rightarrow> string \<Rightarrow> string option" where
  "skipByte p [] = None"
| "skipByte p (c # cs) = (if c = p then Some cs else None)"

definition cutspace :: "string \<Rightarrow> string" where
  "cutspace s = dropWhile (\<lambda>c. c = CHR '' '') s"

fun skipBlank :: "string \<Rightarrow> string option" where
  "skipBlank [] = Some []"
| "skipBlank (c # cs) = (if c \<noteq> CHR '' '' then None else Some (cutspace (c # cs)))"

definition commaOrPeriod :: "char \<Rightarrow> bool" where
  "commaOrPeriod c = (c = CHR ''.'' \<or> c = CHR '','')"

fun skipFraction :: "string \<Rightarrow> string" where
  "skipFraction (c0 # c1 # rest) =
     (if commaOrPeriod c0 \<and> isDigit c1 then dropWhile isDigit rest else c0 # c1 # rest)"
| "skipFraction v = v"

definition parseNumTZ :: "string \<Rightarrow> (int \<times> string) option" where
  "parseNumTZ v =
     (if length v < 5 then None
      else do {
        (hr, _) \<leftarrow> getnum (take 2 (drop 1 v)) True;
        (mm, _) \<leftarrow> getnum (take 2 (drop 3 v)) True;
        if hr > 24 \<or> mm > 60 then None
        else if hd v = CHR ''+'' then Some ((hr * 60 + mm) * 60, drop 5 v)
        else if hd v = CHR ''-'' then Some (- ((hr * 60 + mm) * 60), drop 5 v)
        else None
      })"

definition isLeap :: "int \<Rightarrow> bool" where
  "isLeap year = (year mod 4 = 0 \<and> (year mod 100 \<noteq> 0 \<or> year mod 400 = 0))"

definition daysIn :: "int \<Rightarrow> int \<Rightarrow> int" where
  "daysIn m year =
     (if m = 2 then (if isLeap year then 29 else 28)
      else if m = 4 \<or> m = 6 \<or> m = 9 \<or> m = 11 then 30 else 31)"

definition time_Parse :: "string \<Rightarrow> Time option" where
  "time_Parse dateString = do {
     (year, v1) \<leftarrow> parseLongYear dateString;
     v2 \<leftarrow> skipByte CHR ''-'' v1;
     (month, v3) \<leftarrow> getnum v2 True;
     v4 \<leftarrow> (if month \<le> 0 \<or> 12 < month then None else skipByte CHR ''-'' v3);
     (day, v5) \<leftarrow> getnum v4 True;
     v6 \<leftarrow> skipBlank v5;
     (hour, v7) \<leftarrow> getnum v6 False;
     v8 \<leftarrow> (if 24 \<le> hour then None else skipByte CHR '':'' v7);
     (minute, v9) \<leftarrow> getnum v8 True;
     v10 \<leftarrow> (if 60 \<le> minute then None else skipByte CHR '':'' v9);
     (sec, v11) \<leftarrow> getnum v10 True;
     v12 \<leftarrow> (if 60 \<le> sec then None else skipBlank (skipFraction v11));
     (zoneOffset, v13) \<leftarrow> parseNumTZ v12;
     if v13 \<noteq> [] then None
     else if day < 1 \<or> day > daysIn month year then None
     else Some \<lparr>Year = year, Month = month, Day = day, Hour = hour, Minute = minute,
                 Second = sec, ZoneOffset = zoneOffset\<rparr>
   }"

text \<open>Go's zero \<^verbatim>\<open>Time\<close>, which \<^verbatim>\<open>time.Parse\<close> returns beside an error.\<close>

definition zeroTime :: Time where
  "zeroTime = \<lparr>Year = 1, Month = 1, Day = 1, Hour = 0, Minute = 0, Second = 0, ZoneOffset = 0\<rparr>"

subsection \<open>\<^verbatim>\<open>getStartOfDayFromStringDate\<close> and the key string\<close>

text \<open>
  The error of \<^verbatim>\<open>time.Parse\<close> is discarded (\<^verbatim>\<open>commitDate, _ := ...\<close>); the year, month
  and day of the result are its wall clock fields, and \<^verbatim>\<open>time.Date\<close> puts them at
  midnight in UTC.
\<close>

definition getStartOfDayFromStringDate :: "string \<Rightarrow> Time" where
  "getStartOfDayFromStringDate dateString =
     (let commitDate = (case time_Parse dateString of Some t \<Rightarrow> t | None \<Rightarrow> zeroTime)
      in \<lparr>Year = Year commitDate, Month = Month commitDate, Day = Day commitDate,
          Hour = 0, Minute = 0, Second = 0, ZoneOffset = 0\<rparr>)"

text \<open>
  \<^verbatim>\<open>Time.String\<close> of a UTC time without nanoseconds:
  \<^verbatim>\<open>"2006-01-02 15:04:05 +0000 UTC"\<close>, every number zero padded.
\<close>

definition digitChar :: "int \<Rightarrow> char" where
  "digitChar d = ''0123456789'' ! nat (d mod 10)"

definition pad2 :: "int \<Rightarrow> string" where
  "pad2 n = [digitChar (n div 10), digitChar n]"

definition pad4 :: "int \<Rightarrow> string" where
  "pad4 n = [digitChar (n div 1000), digitChar (n div 100), digitChar (n div 10), digitChar n]"

definition String :: "Time \<Rightarrow> string" where
  "String t = pad4 (Year t) @ ''-'' @ pad2 (Month t) @ ''-'' @ pad2 (Day t) @ '' '' @
     pad2 (Hour t) @ '':'' @ pad2 (Minute t) @ '':'' @ pad2 (Second t) @ '' +0000 UTC''"

section \<open>Aggregation\<close>

fun contains :: "string list \<Rightarrow> string \<Rightarrow> bool" where
  "contains [] v = False"
| "contains (sliceItem # items) v = (if sliceItem = v then True else contains items v)"

text \<open>The result pair of the source: found flag and index, \<open>-1\<close> when absent.\<close>

fun commitContainsExistingDate_from ::
  "int \<Rightarrow> OptimizedCommitForExport list \<Rightarrow> string \<Rightarrow> bool \<times> int" where
  "commitContainsExistingDate_from i [] v = (False, - 1)"
| "commitContainsExistingDate_from i (sliceItem # items) v =
     (if OptimizedCommitForExport.Date sliceItem = v then (True, i)
      else commitContainsExistingDate_from (i + 1) items v)"

definition commitContainsExistingDate ::
  "OptimizedCommitForExport list \<Rightarrow> string \<Rightarrow> bool \<times> int" where
  "commitContainsExistingDate items v = commitContainsExistingDate_from 0 items v"

fun removeDuplicateStrings_loop ::
  "string list \<Rightarrow> (string \<rightharpoonup> bool) \<Rightarrow> string list \<Rightarrow> string list" where
  "removeDuplicateStrings_loop [] allKeys list = list"
| "removeDuplicateStrings_loop (item # items) allKeys list =
     (case allKeys item of
        None \<Rightarrow> removeDuplicateStrings_loop items (allKeys(item \<mapsto> True)) (list @ [item])
      | Some _ \<Rightarrow> removeDuplicateStrings_loop items allKeys list)"

definition removeDuplicateStrings :: "string list \<Rightarrow> string list" where
  "removeDuplicateStrings items = removeDuplicateStrings_loop items Map.empty []"

definition addUniqueEmailToCommitAuthorEmailsSlice :: "string list \<Rightarrow> string \<Rightarrow> string list" where
  "addUniqueEmailToCommitAuthorEmailsSlice items email =
     (if \<not> contains items email then items @ [email] else items)"

text \<open>
  The first loop of the aggregator's commit case: the languages of the commit's files
  (first occurrence order, the empty language left out) and the line count sums.
\<close>

fun scanChangedFiles ::
  "ChangedFile list \<Rightarrow> string list \<times> go_int \<times> go_int \<Rightarrow> string list \<times> go_int \<times> go_int" where
  "scanChangedFiles [] acc = acc"
| "scanChangedFiles (commitChangedFile # files) (commitLanguages, commitInsertions, commitDeletions) =
     scanChangedFiles files
       (if \<not> contains commitLanguages (Language commitChangedFile) \<and> Language commitChangedFile \<noteq> ''''
        then commitLanguages @ [Language commitChangedFile] else commitLanguages,
        commitInsertions + ChangedFile.Insertions commitChangedFile,
        commitDeletions + ChangedFile.Deletions commitChangedFile)"

text \<open>The inner loop of the merge: append each identifier the list does not hold yet.\<close>

fun appendMissing :: "string list \<Rightarrow> string list \<Rightarrow> string list" where
  "appendMissing current [] = current"
| "appendMissing current (libraryItem # newLibrary) =
     appendMissing (if \<not> contains current libraryItem then current @ [libraryItem] else current)
       newLibrary"

text \<open>The outer loop of the merge, over the entries of the commit's library map.\<close>

fun mergeLibraries ::
  "(string \<rightharpoonup> string list) \<Rightarrow> (string \<times> string list) list \<Rightarrow> (string \<rightharpoonup> string list)" where
  "mergeLibraries newLibraries [] = newLibraries"
| "mergeLibraries newLibraries ((newLibraryKey, newLibrary) # entries) =
     mergeLibraries
       (case newLibraries newLibraryKey of
          Some current \<Rightarrow> newLibraries(newLibraryKey \<mapsto> appendMissing current newLibrary)
        | None \<Rightarrow> newLibraries(newLibraryKey \<mapsto> removeDuplicateStrings newLibrary))
       entries"

text \<open>The loop of the creation branch: every entry deduplicated into a fresh map.\<close>

fun dedupLibraries ::
  "(string \<rightharpoonup> string list) \<Rightarrow> (string \<times> string list) list \<Rightarrow> (string \<rightharpoonup> string list)" where
  "dedupLibraries librariesWithoutDuplicity [] = librariesWithoutDuplicity"
| "dedupLibraries librariesWithoutDuplicity ((libraryKey, library) # entries) =
     dedupLibraries (librariesWithoutDuplicity(libraryKey \<mapsto> removeDuplicateStrings library)) entries"

text \<open>
  One pass of the aggregator's select loop for a commit received from the pipeline:
  the state is the bucket list \<^verbatim>\<open>preparedCommitsDataForExport\<close>.
\<close>

definition mergeIntoBucket ::
  "Commit \<Rightarrow> go_int \<Rightarrow> go_int \<Rightarrow> OptimizedCommitForExport \<Rightarrow> OptimizedCommitForExport" where
  "mergeIntoBucket commitFromPipeline commitInsertions commitDeletions bucket =
     bucket\<lparr>Commits := Commits bucket + 1,
            OptimizedCommitForExport.Deletions :=
              OptimizedCommitForExport.Deletions bucket + commitDeletions,
            OptimizedCommitForExport.Insertions :=
              OptimizedCommitForExport.Insertions bucket + commitInsertions,
            OptimizedCommitForExport.Libraries :=
              mergeLibraries (OptimizedCommitForExport.Libraries bucket)
                (Commit.Libraries commitFromPipeline),
            AuthorEmails :=
              addUniqueEmailToCommitAuthorEmailsSlice (AuthorEmails bucket)
                (AuthorEmail commitFromPipeline)\<rparr>"

definition newBucket ::
  "RepoExtractor \<Rightarrow> Commit \<Rightarrow> string \<Rightarrow> string list \<Rightarrow> go_int \<Rightarrow> go_int \<Rightarrow> OptimizedCommitForExport" where
  "newBucket r commitFromPipeline dateKey commitLanguages commitInsertions commitDeletions =
     (let optimizedCommit =
        \<lparr>AuthorEmails = [AuthorEmail commitFromPipeline],
         Date = dateKey,
         Languages = commitLanguages,
         Libraries = dedupLibraries Map.empty (Commit.Libraries commitFromPipeline),
         Insertions = commitInsertions,
         Deletions = commitDeletions,
         Commits = 1\<rparr>
      in if HashImportant r then Obfuscate r optimizedCommit else optimizedCommit)"

definition exportCommit ::
  "RepoExtractor \<Rightarrow> OptimizedCommitForExport list \<Rightarrow> Commit \<Rightarrow> OptimizedCommitForExport list" where
  "exportCommit r preparedCommitsDataForExport commitFromPipeline =
     (let commitDateStartHour = getStartOfDayFromStringDate (Commit.Date commitFromPipeline);
          (commitLanguages, commitInsertions, commitDeletions) =
             scanChangedFiles (ChangedFiles commitFromPipeline) ([], 0, 0);
          (found, index) =
             commitContainsExistingDate preparedCommitsDataForExport (String commitDateStartHour)
      in if index > - 1
         then preparedCommitsDataForExport
                [nat index := mergeIntoBucket commitFromPipeline commitInsertions commitDeletions
                                (preparedCommitsDataForExport ! nat index)]
         else preparedCommitsDataForExport @
                [newBucket r commitFromPipeline (String commitDateStartHour)
                   commitLanguages commitInsertions commitDeletions])"

text \<open>The aggregator's loop over the commits in their order of arrival.\<close>

definition export :: "RepoExtractor \<Rightarrow> Commit list \<Rightarrow> OptimizedCommitForExport list" where
  "export r arrivals = foldl (exportCommit r) [] arrivals"

section \<open>Standard library string functions\<close>

text \<open>
  The functions of Go's \<^verbatim>\<open>strings\<close>, \<^verbatim>\<open>strconv\<close> and \<^verbatim>\<open>path/filepath\<close> packages
  that the extractor calls, on byte strings.  \<^verbatim>\<open>strings.Replace\<close> and
  \<^verbatim>\<open>strings.Split\<close> are only called with a non-empty pattern, and only that case is
  modelled (an empty pattern leaves the string as it is here).
  \<^verbatim>\<open>filepath.Ext\<close> uses the Unix path separator.
\<close>

fun HasPrefix :: "string \<Rightarrow> string \<Rightarrow> bool" where
  "HasPrefix s [] = True"
| "HasPrefix [] (p # ps) = False"
| "HasPrefix (c # cs) (p # ps) = (c = p \<and> HasPrefix cs ps)"

fun Contains :: "string \<Rightarrow> string \<Rightarrow> bool" where
  "Contains [] substr = (substr = [])"
| "Contains (c # cs) substr = (HasPrefix (c # cs) substr \<or> Contains cs substr)"

text \<open>
  \<^verbatim>\<open>strings.Replace(s, old, new, n)\<close>: the first \<open>n\<close> non-overlapping occurrences
  from the left, all of them when \<open>n\<close> is negative.
\<close>

fun Replace :: "string \<Rightarrow> string \<Rightarrow> string \<Rightarrow> int \<Rightarrow> string" where
  "Replace [] old new n = []"
| "Replace (c # cs) old new n =
     (if n \<noteq> 0 \<and> old \<noteq> [] \<and> HasPrefix (c # cs) old
      then new @ Replace (drop (length old - 1) cs) old new (n - 1)
      else c # Replace cs old new n)"

fun Split_from :: "string \<Rightarrow> string \<Rightarrow> string \<Rightarrow> string list" where
  "Split_from current [] sep = [current]"
| "Split_from current (c # cs) sep =
     (if sep \<noteq> [] \<and> HasPrefix (c # cs) sep
      then current # Split_from [] (drop (length sep - 1) cs) sep
      else Split_from (current @ [c]) cs sep)"

definition Split :: "string \<Rightarrow> string \<Rightarrow> string list" where
  "Split s sep = Split_from [] s sep"

text \<open>
  \<^verbatim>\<open>strings.Fields\<close> splits at every rune for which \<^verbatim>\<open>unicode.IsSpace\<close> holds: the
  six ASCII white space characters, U+0085, U+00A0, U+1680, U+2000 to U+200A,
  U+2028, U+2029, U+202F, U+205F and U+3000.  On the bytes of the string a white
  space rune stands at a position exactly when the bytes there are its UTF-8
  encoding: the encodings begin with a lead byte, which is never a continuation
  byte of another rune, so the decoder always starts a rune there, and there is no
  other valid encoding of these runes.  \<open>spaceWidth\<close> is the length of the white
  space rune at the head of a string, 0 when there is none.
\<close>

definition isSpace :: "char \<Rightarrow> bool" where
  "isSpace c = (c \<in> {CHR 0x09, CHR 0x0A, CHR 0x0B, CHR 0x0C, CHR 0x0D, CHR '' ''})"

definition unicodeSpaces :: "string list" where
  "unicodeSpaces =
     [[CHR 0xC2, CHR 0x85], [CHR 0xC2, CHR 0xA0], [CHR 0xE1, CHR 0x9A, CHR 0x80]] @
     map (\<lambda>last. [CHR 0xE2, CHR 0x80, last])
       [CHR 0x80, CHR 0x81, CHR 0x82, CHR 0x83, CHR 0x84, CHR 0x85, CHR 0x86, CHR 0x87,
        CHR 0x88, CHR 0x89, CHR 0x8A, CHR 0xA8, CHR 0xA9, CHR 0xAF] @
     [[CHR 0xE2, CHR 0x81, CHR 0x9F], [CHR 0xE3, CHR 0x80, CHR 0x80]]"

definition spaceWidth :: "string \<Rightarrow> nat" where
  "spaceWidth s =
     (case s of
        [] \<Rightarrow> 0
      | c # cs \<Rightarrow>
          if isSpace c then 1
          else (case find (HasPrefix s) unicodeSpaces of
                  Some encoding \<Rightarrow> length encoding
                | None \<Rightarrow> 0))"

fun Fields_from :: "string \<Rightarrow> string \<Rightarrow> string list" where
  "Fields_from current [] = (if current = [] then [] else [current])"
| "Fields_from current (c # cs) =
     (if spaceWidth (c # cs) = 0 then Fields_from (current @ [c]) cs
      else if current = [] then Fields_from [] (drop (spaceWidth (c # cs) - 1) cs)
      else current # Fields_from [] (drop (spaceWidth (c # cs) - 1) cs))"

definition Fields :: "string \<Rightarrow> string list" where
  "Fields s = Fields_from [] s"

text \<open>
  \<^verbatim>\<open>strconv.Atoi\<close>: an optional sign and at least one decimal digit, nothing else; a
  value outside the 64-bit range is an error as well.  \<open>None\<close> is the error.
\<close>

definition Atoi :: "string \<Rightarrow> go_int option" where
  "Atoi s =
     (let (neg, digits) =
            (case s of
               [] \<Rightarrow> (False, [])
             | c # cs \<Rightarrow> if c = CHR ''-'' then (True, cs)
                         else if c = CHR ''+'' then (False, cs) else (False, s));
          n = foldl (\<lambda>acc c. acc * 10 + digitVal c) 0 digits;
          v = (if neg then - n else n)
      in if digits = [] \<or> \<not> list_all isDigit digits then None
         else if v < - (2 ^ 63) \<or> 2 ^ 63 - 1 < v then None
         else Some (word_of_int v))"

text \<open>
  \<^verbatim>\<open>filepath.Ext\<close>: the suffix from the last dot of the last path element, empty when
  that element has no dot.  The scan runs from the end of the path.
\<close>

fun Ext_scan :: "string \<Rightarrow> string \<Rightarrow> string" where
  "Ext_scan [] suffix = []"
| "Ext_scan (c # front) suffix =
     (if c = CHR ''/'' then []
      else if c = CHR ''.'' then c # suffix
      else Ext_scan front (c # suffix))"

definition Ext :: "string \<Rightarrow> string" where
  "Ext path = Ext_scan (rev path) []"

section \<open>Harvesting\<close>

subsection \<open>The author date of a header line\<close>

text \<open>
  \<^verbatim>\<open>commitWorker\<close> parses the author date with the layout
  \<^verbatim>\<open>"Mon Jan 2 15:04:05 2006 -0700"\<close> and formats it with
  \<^verbatim>\<open>"2006-01-02 15:04:05 -0700"\<close>.  Day and month names are looked up in the
  standard library's tables, ignoring the case of ASCII letters; the day of the
  week is not compared with the date.
\<close>

definition isLetter :: "char \<Rightarrow> bool" where
  "isLetter c = (c \<in> set ''abcdefghijklmnopqrstuvwxyzABCDEFGHIJKLMNOPQRSTUVWXYZ'')"

definition toLower :: "char \<Rightarrow> char" where
  "toLower c =
     (case map_of (zip ''ABCDEFGHIJKLMNOPQRSTUVWXYZ'' ''abcdefghijklmnopqrstuvwxyz'') c of
        Some l \<Rightarrow> l | None \<Rightarrow> c)"

fun match :: "string \<Rightarrow> string \<Rightarrow> bool" where
  "match (c1 # s1) (c2 # s2) =
     ((c1 = c2 \<or> (isLetter c1 \<and> toLower c1 = toLower c2)) \<and> match s1 s2)"
| "match [] s2 = True"
| "match s1 [] = False"

fun lookup :: "string list \<Rightarrow> nat \<Rightarrow> string \<Rightarrow> (nat \<times> string) option" where
  "lookup [] i val = None"
| "lookup (v # tab) i val =
     (if length val \<ge> length v \<and> match (take (length v) val) v
      then Some (i, drop (length v) val)
      else lookup tab (i + 1) val)"

definition shortDayNames :: "string list" where
  "shortDayNames = [''Sun'', ''Mon'', ''Tue'', ''Wed'', ''Thu'', ''Fri'', ''Sat'']"

definition shortMonthNames :: "string list" where
  "shortMonthNames = [''Jan'', ''Feb'', ''Mar'', ''Apr'', ''May'', ''Jun'',
                      ''Jul'', ''Aug'', ''Sep'', ''Oct'', ''Nov'', ''Dec'']"

definition time_Parse_git :: "string \<Rightarrow> Time option" where
  "time_Parse_git s = do {
     (_, v1) \<leftarrow> lookup shortDayNames 0 s;
     v2 \<leftarrow> skipBlank v1;
     (monthIndex, v3) \<leftarrow> lookup shortMonthNames 0 v2;
     v4 \<leftarrow> skipBlank v3;
     (day, v5) \<leftarrow> getnum v4 False;
     v6 \<leftarrow> skipBlank v5;
     (hour, v7) \<leftarrow> getnum v6 False;
     v8 \<leftarrow> (if 24 \<le> hour then None else skipByte CHR '':'' v7);
     (minute, v9) \<leftarrow> getnum v8 True;
     v10 \<leftarrow> (if 60 \<le> minute then None else skipByte CHR '':'' v9);
     (sec, v11) \<leftarrow> getnum v10 True;
     v12 \<leftarrow> (if 60 \<le> sec then None else skipBlank (skipFraction v11));
     (year, v13) \<leftarrow> parseLongYear v12;
     v14 \<leftarrow> skipBlank v13;
     (zoneOffset, v15) \<leftarrow> parseNumTZ v14;
     if v15 \<noteq> [] then None
     else if day < 1 \<or> day > daysIn (int monthIndex + 1) year then None
     else Some \<lparr>Year = year, Month = int monthIndex + 1, Day = day, Hour = hour,
                 Minute = minute, Second = sec, ZoneOffset = zoneOffset\<rparr>
   }"

definition Format :: "Time \<Rightarrow> string" where
  "Format t = pad4 (Year t) @ ''-'' @ pad2 (Month t) @ ''-'' @ pad2 (Day t) @ '' '' @
     pad2 (Hour t) @ '':'' @ pad2 (Minute t) @ '':'' @ pad2 (Second t) @ '' '' @
     (let zone = \<bar>ZoneOffset t\<bar> div 60
      in (if ZoneOffset t < 0 then ''-'' else ''+'') @ pad2 (zone div 60) @ pad2 (zone mod 60))"

subsection \<open>Parsing one page of log output\<close>

text \<open>
  The errors of \<^verbatim>\<open>commitWorker\<close>: the error of \<^verbatim>\<open>strconv.Atoi\<close> with the offending
  text, the explicit error for a missing current commit, and the run time panic of an
  index beyond the end of \<^verbatim>\<open>bits\<close>.
\<close>

datatype error = NumError string | NilCurrentCommit | IndexOutOfRange

definition BEGIN :: string where
  "BEGIN = ''|||BEGIN|||''"

definition SEP :: string where
  "SEP = ''|||SEP|||''"

text \<open>
  The body of the scanner loop for one line \<open>m\<close>.  The state is the pair of
  \<^verbatim>\<open>commits\<close> and \<^verbatim>\<open>currectCommit\<close> (\<open>None\<close> for \<^verbatim>\<open>nil\<close>).  The checks come in the
  order of the source: both numbers are converted, then the rename test, and only
  then the test for a missing current commit.  The test for a \<^verbatim>\<open>nil\<close> file list has
  no branch here: the list is created as an empty, non-nil slice.
\<close>

definition scanLine ::
  "Commit list \<times> Commit option \<Rightarrow> string \<Rightarrow> error + Commit list \<times> Commit option" where
  "scanLine st m =
     (let (commits, currectCommit) = st
      in if m = [] then Inr st
         else if HasPrefix m BEGIN then
           (let commits' = (case currectCommit of Some c \<Rightarrow> commits @ [c] | None \<Rightarrow> commits);
                bits = Split (Replace m BEGIN [] 1) SEP;
                dateStr = (case time_Parse_git (bits ! 3) of Some t \<Rightarrow> Format t | None \<Rightarrow> [])
            in if length bits < 4 then Inl IndexOutOfRange
               else Inr (commits',
                         Some \<lparr>Hash = bits ! 0, AuthorName = bits ! 1, AuthorEmail = bits ! 2,
                               Date = dateStr, ChangedFiles = [], Libraries = []\<rparr>))
         else
           (case Fields m of
              [] \<Rightarrow> Inl IndexOutOfRange
            | insertionsString # bits1 \<Rightarrow>
                (case Atoi (if insertionsString = ''-'' then ''0'' else insertionsString) of
                   None \<Rightarrow> Inl (NumError insertionsString)
                 | Some insertions \<Rightarrow>
                     (case bits1 of
                        [] \<Rightarrow> Inl IndexOutOfRange
                      | deletionsString # bits2 \<Rightarrow>
                          (case Atoi (if deletionsString = ''-'' then ''0'' else deletionsString) of
                             None \<Rightarrow> Inl (NumError deletionsString)
                           | Some deletions \<Rightarrow>
                               (case bits2 of
                                  [] \<Rightarrow> Inl IndexOutOfRange
                                | fileName # _ \<Rightarrow>
                                    if Contains ''=>'' fileName then Inr st
                                    else
                                      (case currectCommit of
                                         None \<Rightarrow> Inl NilCurrentCommit
                                       | Some c \<Rightarrow>
                                           Inr (commits,
                                                Some (c\<lparr>ChangedFiles := ChangedFiles c @
                                                  [\<lparr>Path = fileName, Insertions = insertions,
                                                    Deletions = deletions, Language = []\<rparr>]\<rparr>)))))))))"

fun scanLines ::
  "Commit list \<times> Commit option \<Rightarrow> string list \<Rightarrow> error + Commit list \<times> Commit option" where
  "scanLines st [] = Inr st"
| "scanLines st (m # ms) =
     (case scanLine st m of Inl e \<Rightarrow> Inl e | Inr st' \<Rightarrow> scanLines st' ms)"

text \<open>
  The commits of one page: the scan over the lines that the scanner yields, then the
  last commit appended.
\<close>

definition parsePage :: "string list \<Rightarrow> error + Commit list" where
  "parsePage outputLines =
     (case scanLines ([], None) outputLines of
        Inl e \<Rightarrow> Inl e
      | Inr (commits, currectCommit) \<Rightarrow>
          Inr (case currectCommit of Some c \<Rightarrow> commits @ [c] | None \<Rightarrow> commits))"

subsection \<open>Workers and coordinator\<close>

record req =
  Limit :: nat
  Offset :: nat

text \<open>
  What a worker sends: a batch on \<^verbatim>\<open>results\<close> or the signal on \<^verbatim>\<open>noMoreChan\<close>.
  \<^verbatim>\<open>commitWorker\<close> is the worker's loop over the jobs it receives; \<open>gitLog\<close> gives
  the output lines of the log subprocess for an offset and a limit.  The result is
  what the worker has sent when it returns, and its error.  A page that fails to
  parse is not sent.
\<close>

datatype message = Results "Commit list" | NoMore

fun commitWorker :: "(nat \<Rightarrow> nat \<Rightarrow> string list) \<Rightarrow> req list \<Rightarrow> message list \<times> error option" where
  "commitWorker gitLog [] = ([], None)"
| "commitWorker gitLog (v # jobs) =
     (case parsePage (gitLog (req.Offset v) (Limit v)) of
        Inl e \<Rightarrow> ([], Some e)
      | Inr commits \<Rightarrow>
          if commits = [] then ([NoMore], None)
          else (let (sent, err) = commitWorker gitLog jobs in (Results commits # sent, err)))"

text \<open>
  The goroutine that \<^verbatim>\<open>getCommits\<close> starts for a worker: an error that the worker
  returns is printed and goes nowhere else.  The result is what the worker has sent
  and the errors printed; \<open>None\<close> stands for the run time panic of an index out
  of range, which ends the whole process.
\<close>

definition workerGoroutine ::
  "(nat \<Rightarrow> nat \<Rightarrow> string list) \<Rightarrow> req list \<Rightarrow> (message list \<times> error list) option" where
  "workerGoroutine gitLog jobs =
     (let (sent, err) = commitWorker gitLog jobs
      in case err of
           None \<Rightarrow> Some (sent, [])
         | Some e \<Rightarrow> if e = IndexOutOfRange then None else Some (sent, [e]))"

text \<open>
  The coordinator of \<^verbatim>\<open>getCommits\<close> as a loop over what its \<^verbatim>\<open>select\<close> receives:
  a batch, a no-more signal, or the expiry of the deadline.  The state holds the
  commits gathered, the last offset issued, the count of no-more signals and the
  jobs issued so far.  The loop returns the commits with the error of
  \<^verbatim>\<open>getCommits\<close>, which is \<^verbatim>\<open>nil\<close> at its only \<^verbatim>\<open>return\<close>; \<open>None\<close> stands
  for a coordinator that still waits.  Which worker takes a job, and in which
  order the workers' messages arrive, is left to the list of receipts; a job issued
  is taken to be received by some worker.
\<close>

datatype received = FromResults "Commit list" | FromNoMore | CtxDone

record coordinator =
  commits :: "Commit list"
  lastOffset :: nat
  workersReturnedNoMore :: nat
  issued :: "req list"

definition step :: nat where
  "step = 1000"

fun getCommits_loop ::
  "nat \<Rightarrow> received list \<Rightarrow> coordinator \<Rightarrow> (coordinator \<times> error option) option" where
  "getCommits_loop numCPU [] st = None"
| "getCommits_loop numCPU (FromResults res # rest) st =
     getCommits_loop numCPU rest
       (st\<lparr>lastOffset := lastOffset st + step,
           issued := issued st @ [\<lparr>Limit = step, Offset = lastOffset st + step\<rparr>],
           commits := commits st @ res\<rparr>)"
| "getCommits_loop numCPU (FromNoMore # rest) st =
     (if workersReturnedNoMore st + 1 = numCPU
      then Some (st\<lparr>workersReturnedNoMore := workersReturnedNoMore st + 1\<rparr>, None)
      else getCommits_loop numCPU rest (st\<lparr>workersReturnedNoMore := workersReturnedNoMore st + 1\<rparr>))"
| "getCommits_loop numCPU (CtxDone # rest) st = Some (st, None)"

definition getCommits :: "nat \<Rightarrow> received list \<Rightarrow> (coordinator \<times> error option) option" where
  "getCommits numCPU received =
     getCommits_loop numCPU received
       \<lparr>commits = [], lastOffset = step * (numCPU - 1), workersReturnedNoMore = 0,
        issued = map (\<lambda>x. \<lparr>Limit = step, Offset = x * step\<rparr>) [0..<numCPU]\<rparr>"

section \<open>Analysis\<close>

text \<open>
  The shared deadline as one worker sees it: the number of polls of
  \<^verbatim>\<open>ctx.Done()\<close> that still find the context alive, \<open>None\<close> when there is no
  deadline.  Once expired the context stays expired.
\<close>

fun pollDone :: "nat option \<Rightarrow> bool \<times> nat option" where
  "pollDone None = (False, None)"
| "pollDone (Some 0) = (True, Some 0)"
| "pollDone (Some (Suc n)) = (False, Some n)"

text \<open>
  The body of the file loop after the poll, for one changed file: the file with its
  language set or not, and the worker's \<^verbatim>\<open>libraries\<close> map.  \<^verbatim>\<open>fileContents\<close> is
  \<open>None\<close> while nothing has been read; \<^verbatim>\<open>getFileContent\<close> gives \<open>None\<close> for an
  error.  (An empty file read without error leaves \<^verbatim>\<open>fileContents\<close> \<^verbatim>\<open>nil\<close> in the
  source and is read a second time with the same result.)
\<close>

definition analyseFile ::
  "RepoExtractor \<Rightarrow> string \<Rightarrow> ChangedFile \<Rightarrow> (string \<times> string list) list
     \<Rightarrow> ChangedFile \<times> (string \<times> string list) list" where
  "analyseFile r hash fileChange libraries =
     (let extension = Ext (Path fileChange)
      in if extension = [] then (fileChange, libraries)
         else
           (let extension = drop 1 extension
            in case (if ShouldUseFile r extension
                     then (case getFileContent r hash (Path fileChange) of
                             None \<Rightarrow> None
                           | Some contents \<Rightarrow>
                               Some (Some contents,
                                     DetectLanguageFromFile r (Path fileChange) contents))
                     else Some (None, DetectLanguageFromExtension r extension)) of
                 None \<Rightarrow> (fileChange, libraries)
               | Some (fileContents, lang) \<Rightarrow>
                   if lang = [] then (fileChange, libraries)
                   else if SkipLibraries r then (fileChange\<lparr>Language := lang\<rparr>, libraries)
                   else
                     (case GetAnalyzer r lang of
                        None \<Rightarrow> (fileChange\<lparr>Language := lang\<rparr>, libraries)
                      | Some analyzer \<Rightarrow>
                          (case (case fileContents of
                                   None \<Rightarrow> getFileContent r hash (Path fileChange)
                                 | Some contents \<Rightarrow> Some contents) of
                             None \<Rightarrow> (fileChange\<lparr>Language := lang\<rparr>, libraries)
                           | Some contents \<Rightarrow>
                               (let (fileLibraries, err) = analyzer contents;
                                    fileLibraries =
                                      map (\<lambda>fileLibrary. Replace fileLibrary ''../'' [] (- 1))
                                        fileLibraries
                                in (fileChange\<lparr>Language := lang\<rparr>,
                                    AList.update lang
                                      ((case map_of libraries lang of
                                          None \<Rightarrow> [] | Some current \<Rightarrow> current) @ fileLibraries)
                                      libraries))))))"

text \<open>What a worker sends: a commit on the commit pipeline or a completion signal.\<close>

datatype emission = ToCommitPipeline Commit | ToResults

text \<open>
  The file loop of \<^verbatim>\<open>libraryWorker\<close> for the commit \<open>c\<close>.  \<open>seen\<close> are the files
  already passed, with the languages written so far.  When the poll finds the
  context done, the commit is sent with a completion signal, and \<^verbatim>\<open>continue\<close> goes
  on with the next file of the same loop.
\<close>

fun fileLoop ::
  "RepoExtractor \<Rightarrow> Commit \<Rightarrow> nat option \<Rightarrow> ChangedFile list \<Rightarrow> ChangedFile list
     \<Rightarrow> (string \<times> string list) list
     \<Rightarrow> emission list \<times> nat option \<times> ChangedFile list \<times> (string \<times> string list) list" where
  "fileLoop r c ctx seen [] libraries = ([], ctx, seen, libraries)"
| "fileLoop r c ctx seen (fileChange # rest) libraries =
     (case pollDone ctx of
        (True, ctx') \<Rightarrow>
          (let (sent, ctx'', files, libraries') =
                 fileLoop r c ctx' (seen @ [fileChange]) rest libraries
           in (ToCommitPipeline
                 (c\<lparr>ChangedFiles := seen @ fileChange # rest, Commit.Libraries := libraries\<rparr>)
               # ToResults # sent, ctx'', files, libraries'))
      | (False, ctx') \<Rightarrow>
          (let (fileChange', libraries') = analyseFile r (Hash c) fileChange libraries
           in fileLoop r c ctx' (seen @ [fileChange']) rest libraries'))"

text \<open>One pass of the worker's outer loop, for the commit \<open>commitToAnalyse\<close>.\<close>

definition analyseCommit ::
  "RepoExtractor \<Rightarrow> nat option \<Rightarrow> Commit \<Rightarrow> emission list \<times> nat option" where
  "analyseCommit r ctx commitToAnalyse =
     (let c = \<lparr>Hash = Hash commitToAnalyse, AuthorName = AuthorName commitToAnalyse,
               AuthorEmail = AuthorEmail commitToAnalyse, Date = Commit.Date commitToAnalyse,
               ChangedFiles = ChangedFiles commitToAnalyse, Libraries = []\<rparr>;
          (sent, ctx', files, libraries) =
             fileLoop r c ctx [] (ChangedFiles commitToAnalyse) []
      in (sent @ [ToCommitPipeline (c\<lparr>ChangedFiles := files, Commit.Libraries := libraries\<rparr>),
                  ToResults],
          ctx'))"

fun libraryWorker :: "RepoExtractor \<Rightarrow> nat option \<Rightarrow> Commit list \<Rightarrow> emission list" where
  "libraryWorker r ctx [] = []"
| "libraryWorker r ctx (commitToAnalyse # jobs) =
     (let (sent, ctx') = analyseCommit r ctx commitToAnalyse
      in sent @ libraryWorker r ctx' jobs)"

section \<open>Notions of the specification\<close>

text \<open>The day key of a date string, as the aggregator computes it for a commit.\<close>

definition dayKey :: "string \<Rightarrow> string" where
  "dayKey dateString = String (getStartOfDayFromStringDate dateString)"

text \<open>No library list of a bucket holds an identifier twice.\<close>

definition uniqueLists :: "(string \<rightharpoonup> string list) \<Rightarrow> bool" where
  "uniqueLists m = (\<forall>language identifiers. m language = Some identifiers \<longrightarrow> distinct identifiers)"

definition uniqueLibraries :: "OptimizedCommitForExport \<Rightarrow> bool" where
  "uniqueLibraries bucket = uniqueLists (OptimizedCommitForExport.Libraries bucket)"

section \<open>Sample data\<close>

text \<open>
  An extractor with stand-ins for the collaborators: two extensions with a known
  language, one Go analyzer that reports three identifiers, one readable file.
  The anonymising variant masks the author emails of a new bucket.
\<close>

definition plainExtractor :: RepoExtractor where
  "plainExtractor =
     \<lparr>HashImportant = False, SkipLibraries = False, Obfuscate = (\<lambda>bucket. bucket),
      ShouldUseFile = (\<lambda>extension. extension = ''h''),
      DetectLanguageFromFile = (\<lambda>path contents. ''C''),
      DetectLanguageFromExtension =
        (\<lambda>extension. if extension = ''go'' then ''Go''
                      else if extension = ''py'' then ''Python'' else []),
      GetAnalyzer =
        (\<lambda>lang. if lang = ''Go''
                 then Some (\<lambda>contents. ([''fmt'', ''../../net/http'', ''vendor/../lib''], False))
                 else None),
      getFileContent = (\<lambda>hash path. if path = ''main.go'' then Some ''package main'' else None)\<rparr>"

definition anonymisingExtractor :: RepoExtractor where
  "anonymisingExtractor =
     plainExtractor\<lparr>HashImportant := True,
                    Obfuscate := (\<lambda>bucket. bucket\<lparr>AuthorEmails := map (\<lambda>email. ''***'') (AuthorEmails bucket)\<rparr>)\<rparr>"

definition commitGo :: Commit where
  "commitGo =
     \<lparr>Hash = ''c1'', AuthorName = ''Ann'', AuthorEmail = ''ann@example.org'',
      Date = ''2024-01-01 10:00:00 +0000'',
      ChangedFiles = [\<lparr>Path = ''main.go'', Insertions = 3, Deletions = 1, Language = ''Go''\<rparr>],
      Libraries = [(''Go'', [''fmt'', ''os'', ''fmt''])]\<rparr>"

definition commitPy :: Commit where
  "commitPy =
     \<lparr>Hash = ''c2'', AuthorName = ''Bob'', AuthorEmail = ''bob@example.org'',
      Date = ''2024-01-01 23:00:00 +0000'',
      ChangedFiles = [\<lparr>Path = ''tool.py'', Insertions = 5, Deletions = 2, Language = ''Python''\<rparr>,
                      \<lparr>Path = ''README'', Insertions = 7, Deletions = 0, Language = []\<rparr>],
      Libraries = [(''Python'', [''re'']), (''Go'', [''os'', ''net''])]\<rparr>"

text \<open>A harvested commit before analysis: no language set, no libraries.\<close>

definition commitRaw :: Commit where
  "commitRaw =
     \<lparr>Hash = ''c3'', AuthorName = ''Ann'', AuthorEmail = ''ann@example.org'',
      Date = ''2024-01-02 00:01:00 +0000'',
      ChangedFiles = [\<lparr>Path = ''main.go'', Insertions = 3, Deletions = 1, Language = []\<rparr>,
                      \<lparr>Path = ''README'', Insertions = 7, Deletions = 0, Language = []\<rparr>],
      Libraries = []\<rparr>"

text \<open>
  Log output as the subprocess prints it: a page with one commit, a page whose stat
  row has a field that is no number, and a header whose author date does not parse.
\<close>

definition sampleLog :: "nat \<Rightarrow> nat \<Rightarrow> string list" where
  "sampleLog offset limit =
     (if offset = 0 then
        [''|||BEGIN|||c3|||SEP|||Ann|||SEP|||ann@example.org|||SEP|||Tue Jan 2 00:01:00 2024 +0000'',
         [],
         ''3 1 main.go'',
         ''7 0 README'']
      else if offset = 1000 then
        [''|||BEGIN|||c5|||SEP|||Bob|||SEP|||bob@example.org|||SEP|||Tue Jan 2 09:30:00 2024 +0100'',
         ''x 1 broken.go'']
      else [])"

definition undatedHeader :: string where
  "undatedHeader = ''|||BEGIN|||c4|||SEP|||Ann|||SEP|||ann@example.org|||SEP|||yesterday''"

definition commitUndated :: Commit where
  "commitUndated =
     \<lparr>Hash = ''c4'', AuthorName = ''Ann'', AuthorEmail = ''ann@example.org'', Date = [],
      ChangedFiles = [], Libraries = []\<rparr>"

definition commitMisdated :: Commit where
  "commitMisdated =
     \<lparr>Hash = ''c6'', AuthorName = ''Bob'', AuthorEmail = ''bob@example.org'',
      Date = ''2024-02-30 10:00:00 +0000'',
      ChangedFiles = [\<lparr>Path = ''main.go'', Insertions = 1, Deletions = 1, Language = ''Go''\<rparr>],
      Libraries = []\<rparr>"

text \<open>
  The UTC day of an instant, for comparison with the day key: days since
  1970-01-01 of a calendar date, the Unix time of a parsed time (its wall clock
  reading less its offset), and the number of the UTC day that holds this instant.
\<close>

definition daysFromCivil :: "int \<Rightarrow> int \<Rightarrow> int \<Rightarrow> int" where
  "daysFromCivil y m d =
     (let y' = (if m \<le> 2 then y - 1 else y);
          era = y' div 400;
          yoe = y' - era * 400;
          doy = (153 * (if m > 2 then m - 3 else m + 9) + 2) div 5 + d - 1;
          doe = yoe * 365 + yoe div 4 - yoe div 100 + doy
      in era * 146097 + doe - 719468)"

definition unixSeconds :: "Time \<Rightarrow> int" where
  "unixSeconds t =
     daysFromCivil (Year t) (Month t) (Day t) * 86400
       + Hour t * 3600 + Minute t * 60 + Second t - ZoneOffset t"

definition utcDay :: "Time \<Rightarrow> int" where
  "utcDay t = unixSeconds t div 86400"

text \<open>
  Two commits whose instants lie in the same UTC day, 2024-01-02: the first is
  written with the offset \<open>-0500\<close> and the calendar date 2024-01-01.
\<close>

definition commitLate :: Commit where
  "commitLate =
     \<lparr>Hash = ''c7'', AuthorName = ''Ann'', AuthorEmail = ''ann@example.org'',
      Date = ''2024-01-01 23:30:00 -0500'',
      ChangedFiles = [\<lparr>Path = ''main.go'', Insertions = 1, Deletions = 0, Language = ''Go''\<rparr>],
      Libraries = []\<rparr>"

definition commitNextDay :: Commit where
  "commitNextDay =
     \<lparr>Hash = ''c8'', AuthorName = ''Bob'', AuthorEmail = ''bob@example.org'',
      Date = ''2024-01-02 05:00:00 +0000'',
      ChangedFiles = [\<lparr>Path = ''main.go'', Insertions = 2, Deletions = 0, Language = ''Go''\<rparr>],
      Libraries = []\<rparr>"

text \<open>
  What analysis must leave alone in a changed file, and the totals of the bucket of a
  day key (zero while the day has no bucket).
\<close>

definition fileCounts :: "ChangedFile \<Rightarrow> string \<times> go_int \<times> go_int" where
  "fileCounts f = (Path f, ChangedFile.Insertions f, ChangedFile.Deletions f)"

definition dayTotals :: "string \<Rightarrow> OptimizedCommitForExport list \<Rightarrow> go_int \<times> go_int" where
  "dayTotals key buckets =
     (case find (\<lambda>bucket. OptimizedCommitForExport.Date bucket = key) buckets of
        None \<Rightarrow> (0, 0)
      | Some bucket \<Rightarrow>
          (OptimizedCommitForExport.Insertions bucket, OptimizedCommitForExport.Deletions bucket))"

text \<open>The commit \<open>commitRaw\<close> as the sample extractor's worker sends it without a deadline.\<close>

definition commitAnalysed :: Commit where
  "commitAnalysed =
     \<lparr>Hash = ''c3'', AuthorName = ''Ann'', AuthorEmail = ''ann@example.org'',
      Date = ''2024-01-02 00:01:00 +0000'',
      ChangedFiles = [\<lparr>Path = ''main.go'', Insertions = 3, Deletions = 1, Language = ''Go''\<rparr>,
                      \<lparr>Path = ''README'', Insertions = 7, Deletions = 0, Language = []\<rparr>],
      Libraries = [(''Go'', [''fmt'', ''net/http'', ''vendor/lib''])]\<rparr>"

section \<open>Properties of the aggregation helpers\<close>

lemma contains_iff: "contains xs v \<longleftrightarrow> v \<in> set xs"
  by (induction xs) auto

lemma removeDuplicateStrings_loop_distinct:
  "dom allKeys = set list \<Longrightarrow> distinct list \<Longrightarrow>
   distinct (removeDuplicateStrings_loop xs allKeys list)"
proof (induction xs arbitrary: allKeys list)
  case Nil
  then show ?case by simp
next
  case (Cons x xs)
  show ?case
  proof (cases "allKeys x")
    case None
    then have "x \<notin> set list" using Cons.prems(1) by (metis domIff)
    then have "distinct (list @ [x])" using Cons.prems(2) by simp
    moreover have "dom (allKeys(x \<mapsto> True)) = set (list @ [x])" using Cons.prems(1) by auto
    ultimately have "distinct (removeDuplicateStrings_loop xs (allKeys(x \<mapsto> True)) (list @ [x]))"
      using Cons.IH by blast
    then show ?thesis using None by simp
  next
    case (Some a)
    then show ?thesis using Cons by simp
  qed
qed

lemma removeDuplicateStrings_loop_set:
  "dom allKeys = set list \<Longrightarrow>
   set (removeDuplicateStrings_loop xs allKeys list) = set list \<union> set xs"
proof (induction xs arbitrary: allKeys list)
  case Nil
  then show ?case by simp
next
  case (Cons x xs)
  show ?case
  proof (cases "allKeys x")
    case None
    have "dom (allKeys(x \<mapsto> True)) = set (list @ [x])" using Cons.prems(1) by auto
    then have "set (removeDuplicateStrings_loop xs (allKeys(x \<mapsto> True)) (list @ [x])) =
        set (list @ [x]) \<union> set xs"
      by (rule Cons.IH)
    then show ?thesis using None by simp
  next
    case (Some a)
    then have "x \<in> set list" using Cons.prems by (metis domI)
    then show ?thesis using Some Cons by auto
  qed
qed

lemma distinct_removeDuplicateStrings: "distinct (removeDuplicateStrings xs)"
  by (simp add: removeDuplicateStrings_def removeDuplicateStrings_loop_distinct)

lemma set_removeDuplicateStrings: "set (removeDuplicateStrings xs) = set xs"
  by (simp add: removeDuplicateStrings_def removeDuplicateStrings_loop_set)

lemma distinct_appendMissing: "distinct current \<Longrightarrow> distinct (appendMissing current new)"
  by (induction new arbitrary: current) (auto simp: contains_iff)

lemma set_appendMissing: "set (appendMissing current new) = set current \<union> set new"
  by (induction new arbitrary: current) (auto simp: contains_iff)

lemma uniqueLists_mergeLibraries:
  "uniqueLists m \<Longrightarrow> uniqueLists (mergeLibraries m entries)"
proof (induction entries arbitrary: m)
  case Nil
  then show ?case by simp
next
  case (Cons e entries)
  obtain k new where e: "e = (k, new)" by (cases e)
  have "uniqueLists (case m k of
          Some current \<Rightarrow> m(k \<mapsto> appendMissing current new)
        | None \<Rightarrow> m(k \<mapsto> removeDuplicateStrings new))"
    using Cons.prems
    by (auto simp: uniqueLists_def distinct_appendMissing distinct_removeDuplicateStrings
        split: option.splits)
  then show ?case using Cons.IH e by simp
qed

lemma uniqueLists_dedupLibraries:
  "uniqueLists m \<Longrightarrow> uniqueLists (dedupLibraries m entries)"
proof (induction entries arbitrary: m)
  case Nil
  then show ?case by simp
next
  case (Cons e entries)
  obtain k new where e: "e = (k, new)" by (cases e)
  have "uniqueLists (m(k \<mapsto> removeDuplicateStrings new))"
    using Cons.prems by (auto simp: uniqueLists_def distinct_removeDuplicateStrings)
  then show ?case using Cons.IH e by simp
qed

lemma commitContainsExistingDate_from_range:
  "commitContainsExistingDate_from i bs v = (found, index) \<Longrightarrow> index > - 1 \<Longrightarrow> 0 \<le> i \<Longrightarrow>
   i \<le> index \<and> index < i + int (length bs) \<and>
   OptimizedCommitForExport.Date (bs ! nat (index - i)) = v"
proof (induction bs arbitrary: i)
  case Nil
  then show ?case by simp
next
  case (Cons b bs)
  show ?case
  proof (cases "OptimizedCommitForExport.Date b = v")
    case True
    then show ?thesis using Cons.prems by simp
  next
    case False
    then have rec: "commitContainsExistingDate_from (i + 1) bs v = (found, index)"
      using Cons.prems by simp
    from Cons.IH[OF rec] Cons.prems
    have h: "i + 1 \<le> index" "index < i + 1 + int (length bs)"
      "OptimizedCommitForExport.Date (bs ! nat (index - (i + 1))) = v" by auto
    have "nat (index - i) = Suc (nat (index - (i + 1)))" using h(1) by simp
    then show ?thesis using h by simp
  qed
qed

lemma commitContainsExistingDate_from_absent:
  "commitContainsExistingDate_from i bs v = (found, index) \<Longrightarrow> \<not> index > - 1 \<Longrightarrow> 0 \<le> i \<Longrightarrow>
   v \<notin> OptimizedCommitForExport.Date ` set bs"
proof (induction bs arbitrary: i)
  case Nil
  then show ?case by simp
next
  case (Cons b bs)
  then show ?case by (cases "OptimizedCommitForExport.Date b = v") auto
qed

lemma commitContainsExistingDate_found:
  "commitContainsExistingDate bs v = (found, index) \<Longrightarrow> index > - 1 \<Longrightarrow>
   nat index < length bs \<and> OptimizedCommitForExport.Date (bs ! nat index) = v"
  using commitContainsExistingDate_from_range[of 0 bs v found index]
  by (auto simp: commitContainsExistingDate_def)

lemma commitContainsExistingDate_absent:
  "commitContainsExistingDate bs v = (found, index) \<Longrightarrow> \<not> index > - 1 \<Longrightarrow>
   v \<notin> OptimizedCommitForExport.Date ` set bs"
  using commitContainsExistingDate_from_absent[of 0 bs v found index]
  by (auto simp: commitContainsExistingDate_def)

lemma uniqueLibraries_mergeIntoBucket:
  "uniqueLibraries b \<Longrightarrow> uniqueLibraries (mergeIntoBucket c i d b)"
  using uniqueLists_mergeLibraries[of "OptimizedCommitForExport.Libraries b" "Commit.Libraries c"]
  by (simp add: uniqueLibraries_def mergeIntoBucket_def)

lemma uniqueLibraries_newBucket:
  assumes "HashImportant r \<Longrightarrow> \<forall>b. uniqueLibraries b \<longrightarrow> uniqueLibraries (Obfuscate r b)"
  shows "uniqueLibraries (newBucket r c key langs i d)"
proof -
  let ?b = "\<lparr>AuthorEmails = [AuthorEmail c], Date = key, Languages = langs,
         Libraries = dedupLibraries Map.empty (Commit.Libraries c),
         Insertions = i, Deletions = d, Commits = 1\<rparr>"
  have "uniqueLists (dedupLibraries Map.empty (Commit.Libraries c))"
    by (rule uniqueLists_dedupLibraries) (simp add: uniqueLists_def)
  then have u: "uniqueLibraries ?b" by (simp add: uniqueLibraries_def)
  show ?thesis
  proof (cases "HashImportant r")
    case True
    then show ?thesis using assms u by (simp add: newBucket_def)
  next
    case False
    then show ?thesis using u by (simp add: newBucket_def)
  qed
qed

lemma uniqueLibraries_exportCommit:
  assumes "HashImportant r \<Longrightarrow> \<forall>b. uniqueLibraries b \<longrightarrow> uniqueLibraries (Obfuscate r b)"
    and "\<forall>b \<in> set bs. uniqueLibraries b"
  shows "\<forall>b \<in> set (exportCommit r bs c). uniqueLibraries b"
proof -
  obtain langs i d where s: "scanChangedFiles (ChangedFiles c) ([], 0, 0) = (langs, i, d)"
    by (cases "scanChangedFiles (ChangedFiles c) ([], 0, 0)") auto
  obtain found index where
    f: "commitContainsExistingDate bs (String (getStartOfDayFromStringDate (Commit.Date c))) = (found, index)"
    by (cases "commitContainsExistingDate bs (String (getStartOfDayFromStringDate (Commit.Date c)))") auto
  show ?thesis
  proof (cases "index > - 1")
    case True
    then have lt: "nat index < length bs" using commitContainsExistingDate_found[OF f] by simp
    then have "uniqueLibraries (bs ! nat index)" using assms(2) by simp
    then have "uniqueLibraries (mergeIntoBucket c i d (bs ! nat index))"
      by (rule uniqueLibraries_mergeIntoBucket)
    then have "\<forall>b \<in> set (bs[nat index := mergeIntoBucket c i d (bs ! nat index)]). uniqueLibraries b"
      using assms(2) by (auto dest!: set_update_subset_insert[THEN subsetD])
    then show ?thesis using True s f by (simp add: exportCommit_def Let_def)
  next
    case False
    then show ?thesis
      using s f assms(2) uniqueLibraries_newBucket[OF assms(1)]
      by (simp add: exportCommit_def Let_def)
  qed
qed

lemma uniqueLibraries_foldl:
  assumes "HashImportant r \<Longrightarrow> \<forall>b. uniqueLibraries b \<longrightarrow> uniqueLibraries (Obfuscate r b)"
  shows "\<forall>b \<in> set bs. uniqueLibraries b \<Longrightarrow>
         \<forall>b \<in> set (foldl (exportCommit r) bs arrivals). uniqueLibraries b"
proof (induction arrivals arbitrary: bs)
  case Nil
  then show ?case by simp
next
  case (Cons c arrivals)
  have "\<forall>b \<in> set (exportCommit r bs c). uniqueLibraries b"
    using uniqueLibraries_exportCommit[OF assms] Cons.prems by blast
  then show ?case using Cons.IH by simp
qed

section \<open>Properties of one aggregation step\<close>

lemma commitContainsExistingDate_head:
  "OptimizedCommitForExport.Date b = v \<Longrightarrow> commitContainsExistingDate (b # bs) v = (True, 0)"
  by (simp add: commitContainsExistingDate_def)

lemma scanChangedFiles_sums:
  "snd (scanChangedFiles files (langs, i, d)) =
     (i + sum_list (map ChangedFile.Insertions files), d + sum_list (map ChangedFile.Deletions files))"
  by (induction files arbitrary: langs i d) (simp_all add: add.assoc)

lemma exportCommit_empty:
  "exportCommit r [] c =
     [newBucket r c (dayKey (Commit.Date c))
        (fst (scanChangedFiles (ChangedFiles c) ([], 0, 0)))
        (sum_list (map ChangedFile.Insertions (ChangedFiles c)))
        (sum_list (map ChangedFile.Deletions (ChangedFiles c)))]"
proof -
  obtain langs i d where s: "scanChangedFiles (ChangedFiles c) ([], 0, 0) = (langs, i, d)"
    by (metis prod_cases3)
  with scanChangedFiles_sums[of "ChangedFiles c" "[]" 0 0]
  have "i = sum_list (map ChangedFile.Insertions (ChangedFiles c))"
    "d = sum_list (map ChangedFile.Deletions (ChangedFiles c))" by simp_all
  then show ?thesis using s
    by (simp add: exportCommit_def Let_def commitContainsExistingDate_def dayKey_def)
qed

lemma exportCommit_found:
  assumes "commitContainsExistingDate bs (dayKey (Commit.Date c)) = (found, index)" "index > - 1"
  shows "exportCommit r bs c =
     bs[nat index := mergeIntoBucket c
        (sum_list (map ChangedFile.Insertions (ChangedFiles c)))
        (sum_list (map ChangedFile.Deletions (ChangedFiles c))) (bs ! nat index)]"
proof -
  obtain langs i d where s: "scanChangedFiles (ChangedFiles c) ([], 0, 0) = (langs, i, d)"
    by (metis prod_cases3)
  with scanChangedFiles_sums[of "ChangedFiles c" "[]" 0 0]
  have "i = sum_list (map ChangedFile.Insertions (ChangedFiles c))"
    "d = sum_list (map ChangedFile.Deletions (ChangedFiles c))" by simp_all
  then show ?thesis using s assms
    by (simp add: exportCommit_def Let_def dayKey_def)
qed

lemma exportCommit_absent:
  assumes "commitContainsExistingDate bs (dayKey (Commit.Date c)) = (found, index)" "\<not> index > - 1"
  shows "exportCommit r bs c =
     bs @ [newBucket r c (dayKey (Commit.Date c))
        (fst (scanChangedFiles (ChangedFiles c) ([], 0, 0)))
        (sum_list (map ChangedFile.Insertions (ChangedFiles c)))
        (sum_list (map ChangedFile.Deletions (ChangedFiles c)))]"
proof -
  obtain langs i d where s: "scanChangedFiles (ChangedFiles c) ([], 0, 0) = (langs, i, d)"
    by (metis prod_cases3)
  with scanChangedFiles_sums[of "ChangedFiles c" "[]" 0 0]
  have "i = sum_list (map ChangedFile.Insertions (ChangedFiles c))"
    "d = sum_list (map ChangedFile.Deletions (ChangedFiles c))" by simp_all
  then show ?thesis using s assms
    by (simp add: exportCommit_def Let_def dayKey_def)
qed

lemma exportCommit_single_same:
  "OptimizedCommitForExport.Date b = dayKey (Commit.Date c) \<Longrightarrow>
   exportCommit r [b] c =
     [mergeIntoBucket c (sum_list (map ChangedFile.Insertions (ChangedFiles c)))
        (sum_list (map ChangedFile.Deletions (ChangedFiles c))) b]"
  using exportCommit_found[of "[b]" c True 0 r]
  by (simp add: commitContainsExistingDate_head)

lemma exportCommit_single_other:
  "OptimizedCommitForExport.Date b \<noteq> dayKey (Commit.Date c) \<Longrightarrow>
   exportCommit r [b] c =
     [b, newBucket r c (dayKey (Commit.Date c))
        (fst (scanChangedFiles (ChangedFiles c) ([], 0, 0)))
        (sum_list (map ChangedFile.Insertions (ChangedFiles c)))
        (sum_list (map ChangedFile.Deletions (ChangedFiles c)))]"
  using exportCommit_absent[of "[b]" c False "- 1" r]
  by (simp add: commitContainsExistingDate_def)

lemma newBucket_Date:
  assumes "HashImportant r \<Longrightarrow>
      \<forall>b. OptimizedCommitForExport.Date (Obfuscate r b) = OptimizedCommitForExport.Date b"
  shows "OptimizedCommitForExport.Date (newBucket r c key langs i d) = key"
  using assms by (cases "HashImportant r") (simp_all add: newBucket_def Let_def)

lemma newBucket_Commits:
  assumes "HashImportant r \<Longrightarrow> \<forall>b. Commits (Obfuscate r b) = Commits b"
  shows "Commits (newBucket r c key langs i d) = 1"
  using assms by (cases "HashImportant r") (simp_all add: newBucket_def Let_def)

lemma newBucket_totals:
  assumes "HashImportant r \<Longrightarrow>
      \<forall>b. OptimizedCommitForExport.Insertions (Obfuscate r b) = OptimizedCommitForExport.Insertions b \<and>
          OptimizedCommitForExport.Deletions (Obfuscate r b) = OptimizedCommitForExport.Deletions b"
  shows "OptimizedCommitForExport.Insertions (newBucket r c key langs i d) = i"
    and "OptimizedCommitForExport.Deletions (newBucket r c key langs i d) = d"
  using assms by (cases "HashImportant r"; simp add: newBucket_def Let_def)+

lemma dayKey_unparsable:
  "time_Parse s = None \<Longrightarrow> dayKey s = ''0001-01-01 00:00:00 +0000 UTC''"
  by (simp add: dayKey_def getStartOfDayFromStringDate_def zeroTime_def String_def pad4_def
      pad2_def digitChar_def)

lemma getStartOfDay_unparsable:
  "time_Parse s = None \<Longrightarrow> getStartOfDayFromStringDate s = zeroTime"
  by (simp add: getStartOfDayFromStringDate_def zeroTime_def)

lemma foldl_same_day:
  assumes "\<forall>c \<in> set arrivals. dayKey (Commit.Date c) = key"
    and "OptimizedCommitForExport.Date b = key"
  shows "\<exists>b'. foldl (exportCommit r) [b] arrivals = [b'] \<and>
           OptimizedCommitForExport.Date b' = key \<and>
           Commits b' = Commits b + of_nat (length arrivals)"
  using assms
proof (induction arrivals arbitrary: b)
  case Nil
  then show ?case by simp
next
  case (Cons c arrivals)
  let ?m = "mergeIntoBucket c (sum_list (map ChangedFile.Insertions (ChangedFiles c)))
        (sum_list (map ChangedFile.Deletions (ChangedFiles c))) b"
  have e: "exportCommit r [b] c = [?m]"
    using Cons.prems by (simp add: exportCommit_single_same)
  have d: "OptimizedCommitForExport.Date ?m = key" "Commits ?m = Commits b + 1"
    using Cons.prems by (simp_all add: mergeIntoBucket_def)
  from Cons.IH[of ?m] Cons.prems d
  obtain b' where "foldl (exportCommit r) [?m] arrivals = [b']"
    "OptimizedCommitForExport.Date b' = key"
    "Commits b' = Commits ?m + of_nat (length arrivals)" by auto
  then show ?case using e d by (simp add: add.assoc add.commute)
qed

section \<open>The buckets after any sequence of arrivals\<close>

text \<open>
  After any arrivals there is exactly one bucket for every day key that occurred
  and no other bucket, and every bucket counts exactly the arrivals of its key.
  (Where anonymisation is on, the obfuscation transform is assumed to keep the key
  and the count of a new bucket.)
\<close>

lemma exportCommit_step:
  assumes obf: "HashImportant r \<Longrightarrow>
      \<forall>b. OptimizedCommitForExport.Date (Obfuscate r b) = OptimizedCommitForExport.Date b \<and>
          Commits (Obfuscate r b) = Commits b"
    and d: "distinct (map OptimizedCommitForExport.Date bs)"
    and k: "set (map OptimizedCommitForExport.Date bs) = (\<lambda>c. dayKey (Commit.Date c)) ` set xs"
    and n: "\<forall>b \<in> set bs. Commits b =
              of_nat (length (filter (\<lambda>c. dayKey (Commit.Date c) = OptimizedCommitForExport.Date b) xs))"
  shows "distinct (map OptimizedCommitForExport.Date (exportCommit r bs c)) \<and>
         set (map OptimizedCommitForExport.Date (exportCommit r bs c)) =
           (\<lambda>c. dayKey (Commit.Date c)) ` set (xs @ [c]) \<and>
         (\<forall>b \<in> set (exportCommit r bs c). Commits b =
              of_nat (length (filter (\<lambda>c. dayKey (Commit.Date c) = OptimizedCommitForExport.Date b)
                                (xs @ [c]))))"
proof -
  let ?key = "dayKey (Commit.Date c)"
  let ?i = "sum_list (map ChangedFile.Insertions (ChangedFiles c))"
  let ?d = "sum_list (map ChangedFile.Deletions (ChangedFiles c))"
  obtain found index where f: "commitContainsExistingDate bs ?key = (found, index)"
    by (cases "commitContainsExistingDate bs ?key")
  show ?thesis
  proof (cases "index > - 1")
    case True
    let ?j = "nat index"
    let ?m = "mergeIntoBucket c ?i ?d (bs ! ?j)"
    let ?bs = "bs[?j := ?m]"
    from commitContainsExistingDate_found[OF f True]
    have lt: "?j < length bs" and dj: "OptimizedCommitForExport.Date (bs ! ?j) = ?key" by simp_all
    have e: "exportCommit r bs c = ?bs" by (rule exportCommit_found[OF f True])
    have md: "OptimizedCommitForExport.Date ?m = ?key" using dj by (simp add: mergeIntoBucket_def)
    have mc: "Commits ?m = Commits (bs ! ?j) + 1" by (simp add: mergeIntoBucket_def)
    have dates: "map OptimizedCommitForExport.Date ?bs = map OptimizedCommitForExport.Date bs"
      using lt dj md by (simp add: map_update list_update_same_conv)
    have kin: "?key \<in> (\<lambda>c. dayKey (Commit.Date c)) ` set xs"
      using k lt dj by (metis image_eqI list.set_map nth_mem)
    have cnt: "\<forall>b \<in> set ?bs. Commits b =
              of_nat (length (filter (\<lambda>c. dayKey (Commit.Date c) = OptimizedCommitForExport.Date b)
                                (xs @ [c])))"
    proof
      fix b assume "b \<in> set ?bs"
      then obtain l where l: "l < length bs" "b = ?bs ! l"
        by (metis in_set_conv_nth length_list_update)
      show "Commits b =
              of_nat (length (filter (\<lambda>c. dayKey (Commit.Date c) = OptimizedCommitForExport.Date b)
                                (xs @ [c])))"
      proof (cases "l = ?j")
        case True
        then have b: "b = ?m" using l lt by simp
        have "Commits (bs ! ?j) =
              of_nat (length (filter (\<lambda>c. dayKey (Commit.Date c) = ?key) xs))"
          using n lt dj by (metis nth_mem)
        then show ?thesis using b md mc by simp
      next
        case False
        then have b: "b = bs ! l" using l by simp
        have "map OptimizedCommitForExport.Date bs ! l \<noteq> map OptimizedCommitForExport.Date bs ! ?j"
          using nth_eq_iff_index_eq[OF d, of l "nat index"] l(1) lt False by simp
        then have ne: "OptimizedCommitForExport.Date b \<noteq> ?key" using b l(1) lt dj by simp
        have "Commits b =
              of_nat (length (filter (\<lambda>c. dayKey (Commit.Date c) = OptimizedCommitForExport.Date b) xs))"
          using n b l(1) by simp
        then show ?thesis using ne by auto
      qed
    qed
    show ?thesis using e dates d k kin cnt by (simp add: insert_absorb)
  next
    case False
    let ?n = "newBucket r c ?key (fst (scanChangedFiles (ChangedFiles c) ([], 0, 0))) ?i ?d"
    have e: "exportCommit r bs c = bs @ [?n]" by (rule exportCommit_absent[OF f False])
    have a: "?key \<notin> OptimizedCommitForExport.Date ` set bs"
      by (rule commitContainsExistingDate_absent[OF f False])
    have nd: "OptimizedCommitForExport.Date ?n = ?key" using newBucket_Date[of r] obf by simp
    have nc: "Commits ?n = 1" using newBucket_Commits[of r] obf by simp
    from a k have notin: "?key \<notin> (\<lambda>c. dayKey (Commit.Date c)) ` set xs" by simp
    have "\<forall>x \<in> set xs. dayKey (Commit.Date x) \<noteq> ?key"
    proof (intro ballI notI)
      fix x assume "dayKey (Commit.Date x) = ?key" and "x \<in> set xs"
      then have "?key \<in> (\<lambda>c. dayKey (Commit.Date c)) ` set xs" by (rule image_eqI[OF sym])
      with notin show False by simp
    qed
    then have none: "filter (\<lambda>c. dayKey (Commit.Date c) = ?key) xs = []"
      by (simp add: filter_empty_conv)
    have cnt: "\<forall>b \<in> set (bs @ [?n]). Commits b =
              of_nat (length (filter (\<lambda>c. dayKey (Commit.Date c) = OptimizedCommitForExport.Date b)
                                (xs @ [c])))"
    proof
      fix b assume "b \<in> set (bs @ [?n])"
      then consider "b = ?n" | "b \<in> set bs" by auto
      then show "Commits b =
              of_nat (length (filter (\<lambda>c. dayKey (Commit.Date c) = OptimizedCommitForExport.Date b)
                                (xs @ [c])))"
      proof cases
        case 1
        then show ?thesis using nd nc none by simp
      next
        case 2
        then have "OptimizedCommitForExport.Date b \<noteq> ?key" using a by (metis imageI)
        then show ?thesis using n 2 by auto
      qed
    qed
    show ?thesis using e d k a nd cnt by auto
  qed
qed

lemma export_invariant:
  assumes obf: "HashImportant r \<Longrightarrow>
      \<forall>b. OptimizedCommitForExport.Date (Obfuscate r b) = OptimizedCommitForExport.Date b \<and>
          Commits (Obfuscate r b) = Commits b"
  shows "distinct (map OptimizedCommitForExport.Date (export r arrivals)) \<and>
         set (map OptimizedCommitForExport.Date (export r arrivals)) =
           (\<lambda>c. dayKey (Commit.Date c)) ` set arrivals \<and>
         (\<forall>b \<in> set (export r arrivals). Commits b =
              of_nat (length (filter (\<lambda>c. dayKey (Commit.Date c) = OptimizedCommitForExport.Date b)
                                arrivals)))"
proof (induction arrivals rule: rev_induct)
  case Nil
  then show ?case by (simp add: export_def)
next
  case (snoc c xs)
  have e: "export r (xs @ [c]) = exportCommit r (export r xs) c" by (simp add: export_def)
  from snoc have d: "distinct (map OptimizedCommitForExport.Date (export r xs))"
    and k: "set (map OptimizedCommitForExport.Date (export r xs)) = (\<lambda>c. dayKey (Commit.Date c)) ` set xs"
    and n: "\<forall>b \<in> set (export r xs). Commits b =
              of_nat (length (filter (\<lambda>c. dayKey (Commit.Date c) = OptimizedCommitForExport.Date b) xs))"
    by blast+
  show ?case unfolding e by (rule exportCommit_step[OF obf d k n])
qed

section \<open>Properties of the date functions\<close>

lemma digitVal_range: "isDigit c \<Longrightarrow> 0 \<le> digitVal c \<and> digitVal c \<le> 9"
  by (auto simp: isDigit_def digitVal_def)

lemma getnum_range: "getnum v f = Some (n, rest) \<Longrightarrow> 0 \<le> n \<and> n \<le> 99"
proof (induction v f rule: getnum.induct)
  case (1 fixed)
  then show ?case by simp
next
  case (2 c0 fixed)
  then show ?case using digitVal_range[of c0] by (auto split: if_splits)
next
  case (3 c0 c1 rest' fixed)
  then show ?case using digitVal_range[of c0] digitVal_range[of c1] by (auto split: if_splits)
qed

lemma length4_cases: "4 \<le> length v \<Longrightarrow> \<exists>a b c d w. v = a # b # c # d # w"
  by (cases v; simp; cases "tl v"; simp; cases "tl (tl v)"; simp; cases "tl (tl (tl v))"; simp)

lemma parseLongYear_range:
  assumes a: "parseLongYear v = Some (y, rest)"
  shows "0 \<le> y \<and> y \<le> 9999"
proof -
  from a have len: "4 \<le> length v" and dig: "list_all isDigit (take 4 v)"
    and y: "y = foldl (\<lambda>acc c. acc * 10 + digitVal c) 0 (take 4 v)"
    by (auto simp: parseLongYear_def split: if_splits)
  from length4_cases[OF len] obtain a b c d w where v: "v = a # b # c # d # w" by blast
  with dig have "isDigit a" "isDigit b" "isDigit c" "isDigit d" by simp_all
  then show ?thesis using y v digitVal_range[of a] digitVal_range[of b] digitVal_range[of c]
      digitVal_range[of d] by simp
qed

lemma daysIn_le: "daysIn m y \<le> 31"
  by (simp add: daysIn_def)

lemma time_Parse_range:
  assumes "time_Parse s = Some t"
  shows "0 \<le> Year t \<and> Year t \<le> 9999 \<and> 1 \<le> Month t \<and> Month t \<le> 12 \<and>
         1 \<le> Day t \<and> Day t \<le> 31 \<and> 0 \<le> Hour t \<and> Hour t < 24 \<and>
         0 \<le> Minute t \<and> Minute t < 60 \<and> 0 \<le> Second t \<and> Second t < 60"
proof -
  from assms obtain year v1 v2 month v3 v4 day v5 v6 hour v7 v8 minute v9 v10 sec v11 v12 zo v13
    where y: "parseLongYear s = Some (year, v1)"
      and m: "getnum v2 True = Some (month, v3)"
      and mr: "\<not> (month \<le> 0 \<or> 12 < month)"
      and d: "getnum v4 True = Some (day, v5)"
      and h: "getnum v6 False = Some (hour, v7)"
      and hr: "\<not> 24 \<le> hour"
      and mi: "getnum v8 True = Some (minute, v9)"
      and mir: "\<not> 60 \<le> minute"
      and se: "getnum v10 True = Some (sec, v11)"
      and ser: "\<not> 60 \<le> sec"
      and dr: "\<not> (day < 1 \<or> day > daysIn month year)"
      and t: "t = \<lparr>Year = year, Month = month, Day = day, Hour = hour, Minute = minute,
                 Second = sec, ZoneOffset = zo\<rparr>"
    unfolding time_Parse_def
    by (auto simp: bind_eq_Some_conv split: if_splits)
  from parseLongYear_range[OF y] getnum_range[OF h] getnum_range[OF mi] getnum_range[OF se]
    mr hr mir ser dr daysIn_le[of month year] t
  show ?thesis by auto
qed

lemma digitChar_inj: "digitChar a = digitChar b \<Longrightarrow> a mod 10 = b mod 10"
proof -
  assume e: "digitChar a = digitChar b"
  have d: "distinct ''0123456789''" by simp
  have la: "nat (a mod 10) < length ''0123456789''" and lb: "nat (b mod 10) < length ''0123456789''"
    by simp_all
  from e have "''0123456789'' ! nat (a mod 10) = ''0123456789'' ! nat (b mod 10)"
    by (simp only: digitChar_def)
  with nth_eq_iff_index_eq[OF d la lb] have "nat (a mod 10) = nat (b mod 10)" by blast
  then show ?thesis by simp
qed

lemma digits_step: "(a::int) mod 10 = b mod 10 \<Longrightarrow> a div 10 = b div 10 \<Longrightarrow> a = b"
  by (metis div_mult_mod_eq)

lemma pad2_inj:
  assumes "pad2 n = pad2 m" "0 \<le> n" "n < 100" "0 \<le> m" "m < 100"
  shows "n = m"
proof -
  from assms(1) have e: "n div 10 mod 10 = m div 10 mod 10" "n mod 10 = m mod 10"
    by (auto simp: pad2_def dest: digitChar_inj)
  have "n div 10 < 10" "0 \<le> n div 10" "m div 10 < 10" "0 \<le> m div 10"
    using assms(2-5) by simp_all
  with e(1) have "n div 10 = m div 10" by simp
  with e(2) show ?thesis by (rule digits_step)
qed

lemma pad4_inj:
  assumes "pad4 n = pad4 m" "0 \<le> n" "n < 10000" "0 \<le> m" "m < 10000"
  shows "n = m"
proof -
  from assms(1) have e: "n div 1000 mod 10 = m div 1000 mod 10" "n div 100 mod 10 = m div 100 mod 10"
    "n div 10 mod 10 = m div 10 mod 10" "n mod 10 = m mod 10"
    by (auto simp: pad4_def dest: digitChar_inj)
  have "n div 1000 < 10" "0 \<le> n div 1000" "m div 1000 < 10" "0 \<le> m div 1000"
    using assms(2-5) by simp_all
  with e(1) have e3: "n div 1000 = m div 1000" by simp
  have d2: "n div 100 div 10 = n div 1000" "m div 100 div 10 = m div 1000"
    by (simp_all add: zdiv_zmult2_eq[symmetric])
  have d1: "n div 10 div 10 = n div 100" "m div 10 div 10 = m div 100"
    by (simp_all add: zdiv_zmult2_eq[symmetric])
  have e2: "n div 100 = m div 100"
    by (rule digits_step[OF e(2)]) (simp add: d2 e3)
  have e1: "n div 10 = m div 10"
    by (rule digits_step[OF e(3)]) (simp add: d1 e2)
  show ?thesis by (rule digits_step[OF e(4) e1])
qed

lemma length_pad [simp]: "length (pad2 n) = 2" "length (pad4 n) = 4"
  by (simp_all add: pad2_def pad4_def)

lemma dayKey_parsed:
  "time_Parse s = Some t \<Longrightarrow>
   dayKey s = pad4 (Year t) @ ''-'' @ pad2 (Month t) @ ''-'' @ pad2 (Day t) @ '' 00:00:00 +0000 UTC''"
  by (simp add: dayKey_def getStartOfDayFromStringDate_def String_def pad2_def digitChar_def)

lemma dayKey_eq_iff:
  assumes "time_Parse s1 = Some t1" "time_Parse s2 = Some t2"
  shows "dayKey s1 = dayKey s2 \<longleftrightarrow>
         Year t1 = Year t2 \<and> Month t1 = Month t2 \<and> Day t1 = Day t2"
proof
  assume "dayKey s1 = dayKey s2"
  then have "pad4 (Year t1) = pad4 (Year t2)" "pad2 (Month t1) = pad2 (Month t2)"
    "pad2 (Day t1) = pad2 (Day t2)"
    using assms by (simp_all add: dayKey_parsed)
  then show "Year t1 = Year t2 \<and> Month t1 = Month t2 \<and> Day t1 = Day t2"
    using time_Parse_range[OF assms(1)] time_Parse_range[OF assms(2)]
      pad4_inj[of "Year t1" "Year t2"] pad2_inj[of "Month t1" "Month t2"]
      pad2_inj[of "Day t1" "Day t2"]
    by simp
next
  assume "Year t1 = Year t2 \<and> Month t1 = Month t2 \<and> Day t1 = Day t2"
  then show "dayKey s1 = dayKey s2" using assms by (simp add: dayKey_parsed)
qed

lemma utcDay_offset_zero:
  assumes "time_Parse s = Some t" "ZoneOffset t = 0"
  shows "utcDay t = daysFromCivil (Year t) (Month t) (Day t)"
proof -
  let ?r = "Hour t * 3600 + Minute t * 60 + Second t"
  have "0 \<le> ?r" "?r < 86400" using time_Parse_range[OF assms(1)] by auto
  then have "(daysFromCivil (Year t) (Month t) (Day t) * 86400 + ?r) div 86400 =
      daysFromCivil (Year t) (Month t) (Day t)" by simp
  then show ?thesis using assms(2) by (simp add: utcDay_def unixSeconds_def add.assoc)
qed

section \<open>Properties of the analysis worker and of the day totals\<close>

lemma analyseFile_counts:
  "fileCounts (fst (analyseFile r h f libraries)) = fileCounts f"
  by (simp add: analyseFile_def Let_def fileCounts_def split: option.splits prod.splits)

lemma analyseFile_no_extension:
  "Ext (Path f) = [] \<Longrightarrow> analyseFile r h f libraries = (f, libraries)"
  by (simp add: analyseFile_def)

lemma analyseFile_unknown_language:
  "\<not> ShouldUseFile r (drop 1 (Ext (Path f))) \<Longrightarrow>
   DetectLanguageFromExtension r (drop 1 (Ext (Path f))) = [] \<Longrightarrow>
   analyseFile r h f libraries = (f, libraries)"
  by (simp add: analyseFile_def Let_def)

lemma fileLoop_counts:
  assumes "fileLoop r c ctx seen rest libraries = (sent, ctx', files, libraries')"
  shows "map fileCounts files = map fileCounts (seen @ rest) \<and>
         (\<forall>e. ToCommitPipeline e \<in> set sent \<longrightarrow>
            map fileCounts (ChangedFiles e) = map fileCounts (seen @ rest) \<and>
            Commit.Date e = Commit.Date c)"
  using assms
proof (induction rest arbitrary: ctx seen libraries sent ctx' files libraries')
  case Nil
  then show ?case by simp
next
  case (Cons f rest)
  obtain expired ctx1 where p: "pollDone ctx = (expired, ctx1)" by (cases "pollDone ctx")
  show ?case
  proof (cases expired)
    case True
    obtain sent1 ctx2 files1 libs1 where
      r: "fileLoop r c ctx1 (seen @ [f]) rest libraries = (sent1, ctx2, files1, libs1)"
      by (metis prod_cases4)
    from Cons.prems p True r have
      s: "sent = ToCommitPipeline
                 (c\<lparr>ChangedFiles := seen @ f # rest, Commit.Libraries := libraries\<rparr>)
               # ToResults # sent1" and f: "files = files1"
      by simp_all
    from Cons.IH[OF r] s f show ?thesis by auto
  next
    case False
    obtain f' libs1 where a: "analyseFile r (Hash c) f libraries = (f', libs1)"
      by (cases "analyseFile r (Hash c) f libraries")
    then have fc: "fileCounts f' = fileCounts f"
      using analyseFile_counts[of r "Hash c" f libraries] by simp
    from Cons.prems p False a have
      r: "fileLoop r c ctx1 (seen @ [f']) rest libs1 = (sent, ctx', files, libraries')"
      by simp
    from Cons.IH[OF r] fc show ?thesis by simp
  qed
qed

lemma analyseCommit_counts:
  assumes "ToCommitPipeline e \<in> set (fst (analyseCommit r ctx c))"
  shows "map fileCounts (ChangedFiles e) = map fileCounts (ChangedFiles c) \<and>
         Commit.Date e = Commit.Date c"
proof -
  let ?c = "\<lparr>Hash = Hash c, AuthorName = AuthorName c, AuthorEmail = AuthorEmail c,
           Date = Commit.Date c, ChangedFiles = ChangedFiles c, Libraries = []\<rparr>"
  obtain sent ctx' files libraries where
    f: "fileLoop r ?c ctx [] (ChangedFiles c) [] = (sent, ctx', files, libraries)"
    by (metis prod_cases4)
  from fileLoop_counts[OF f] have
    1: "map fileCounts files = map fileCounts (ChangedFiles c)" and
    2: "\<forall>e. ToCommitPipeline e \<in> set sent \<longrightarrow>
            map fileCounts (ChangedFiles e) = map fileCounts (ChangedFiles c) \<and>
            Commit.Date e = Commit.Date c" by simp_all
  from assms f have "ToCommitPipeline e \<in> set sent \<or>
      e = ?c\<lparr>ChangedFiles := files, Commit.Libraries := libraries\<rparr>"
    by (auto simp: analyseCommit_def)
  then show ?thesis using 1 2 by auto
qed

lemma libraryWorker_counts:
  "ToCommitPipeline e \<in> set (libraryWorker r ctx jobs) \<Longrightarrow>
   \<exists>c \<in> set jobs. map fileCounts (ChangedFiles e) = map fileCounts (ChangedFiles c) \<and>
                    Commit.Date e = Commit.Date c"
proof (induction jobs arbitrary: ctx)
  case Nil
  then show ?case by simp
next
  case (Cons c jobs)
  obtain sent ctx' where a: "analyseCommit r ctx c = (sent, ctx')"
    by (cases "analyseCommit r ctx c")
  with Cons.prems have "ToCommitPipeline e \<in> set sent \<or>
      ToCommitPipeline e \<in> set (libraryWorker r ctx' jobs)" by auto
  then show ?case
  proof
    assume "ToCommitPipeline e \<in> set sent"
    then show ?thesis using analyseCommit_counts[of e r ctx c] a by simp
  next
    assume "ToCommitPipeline e \<in> set (libraryWorker r ctx' jobs)"
    then show ?thesis using Cons.IH by auto
  qed
qed

lemma find_update_first:
  "commitContainsExistingDate_from i bs v = (found, index) \<Longrightarrow> index > - 1 \<Longrightarrow> 0 \<le> i \<Longrightarrow>
   OptimizedCommitForExport.Date b' = v \<Longrightarrow>
   find (\<lambda>b. OptimizedCommitForExport.Date b = v) bs = Some (bs ! nat (index - i)) \<and>
   find (\<lambda>b. OptimizedCommitForExport.Date b = v) (bs[nat (index - i) := b']) = Some b'"
proof (induction bs arbitrary: i)
  case Nil
  then show ?case by simp
next
  case (Cons b bs)
  show ?case
  proof (cases "OptimizedCommitForExport.Date b = v")
    case True
    then show ?thesis using Cons.prems by simp
  next
    case False
    then have rec: "commitContainsExistingDate_from (i + 1) bs v = (found, index)"
      using Cons.prems by simp
    from commitContainsExistingDate_from_range[OF rec] Cons.prems have "i + 1 \<le> index" by simp
    then have n: "nat (index - i) = Suc (nat (index - (i + 1)))" by simp
    from Cons.IH[OF rec] Cons.prems False n show ?thesis by simp
  qed
qed

lemma find_absent:
  "v \<notin> OptimizedCommitForExport.Date ` set bs \<Longrightarrow>
   find (\<lambda>b. OptimizedCommitForExport.Date b = v) bs = None"
  by (induction bs) auto

lemma find_append_new:
  "v \<notin> OptimizedCommitForExport.Date ` set bs \<Longrightarrow> OptimizedCommitForExport.Date b' = v \<Longrightarrow>
   find (\<lambda>b. OptimizedCommitForExport.Date b = v) (bs @ [b']) = Some b'"
  by (induction bs) auto

lemma dayTotals_exportCommit:
  assumes "HashImportant r \<Longrightarrow>
      \<forall>b. OptimizedCommitForExport.Date (Obfuscate r b) = OptimizedCommitForExport.Date b \<and>
          OptimizedCommitForExport.Insertions (Obfuscate r b) = OptimizedCommitForExport.Insertions b \<and>
          OptimizedCommitForExport.Deletions (Obfuscate r b) = OptimizedCommitForExport.Deletions b"
  shows "dayTotals (dayKey (Commit.Date e)) (exportCommit r buckets e) =
     (fst (dayTotals (dayKey (Commit.Date e)) buckets)
        + sum_list (map ChangedFile.Insertions (ChangedFiles e)),
      snd (dayTotals (dayKey (Commit.Date e)) buckets)
        + sum_list (map ChangedFile.Deletions (ChangedFiles e)))"
proof -
  let ?key = "dayKey (Commit.Date e)"
  let ?i = "sum_list (map ChangedFile.Insertions (ChangedFiles e))"
  let ?d = "sum_list (map ChangedFile.Deletions (ChangedFiles e))"
  obtain found index where f: "commitContainsExistingDate buckets ?key = (found, index)"
    by (cases "commitContainsExistingDate buckets ?key")
  show ?thesis
  proof (cases "index > - 1")
    case True
    let ?m = "mergeIntoBucket e ?i ?d (buckets ! nat index)"
    have md: "OptimizedCommitForExport.Date ?m = ?key"
      using commitContainsExistingDate_found[OF f True] by (simp add: mergeIntoBucket_def)
    from f have f': "commitContainsExistingDate_from 0 buckets ?key = (found, index)"
      by (simp add: commitContainsExistingDate_def)
    from find_update_first[OF f' True _ md] have
      "find (\<lambda>b. OptimizedCommitForExport.Date b = ?key) buckets = Some (buckets ! nat index)"
      "find (\<lambda>b. OptimizedCommitForExport.Date b = ?key) (buckets[nat index := ?m]) = Some ?m"
      by simp_all
    then show ?thesis using exportCommit_found[OF f True, of r]
      by (simp add: dayTotals_def mergeIntoBucket_def)
  next
    case False
    let ?n = "newBucket r e ?key (fst (scanChangedFiles (ChangedFiles e) ([], 0, 0))) ?i ?d"
    have a: "?key \<notin> OptimizedCommitForExport.Date ` set buckets"
      by (rule commitContainsExistingDate_absent[OF f False])
    have nd: "OptimizedCommitForExport.Date ?n = ?key"
      using newBucket_Date[of r] assms by simp
    have nt: "OptimizedCommitForExport.Insertions ?n = ?i" "OptimizedCommitForExport.Deletions ?n = ?d"
      using newBucket_totals[of r] assms by simp_all
    show ?thesis using exportCommit_absent[OF f False, of r] find_absent[OF a]
        find_append_new[OF a nd] nt
      by (simp add: dayTotals_def)
  qed
qed

section \<open>Claim C1: the merge into an existing bucket\<close>

text \<open>
  What the merge branch does to the bucket it finds: count, sums, author emails and
  libraries change as the specification says; the languages are left as they were.
\<close>

lemma mergeIntoBucket_fields:
  "Commits (mergeIntoBucket c i d b) = Commits b + 1"
  "OptimizedCommitForExport.Insertions (mergeIntoBucket c i d b) =
     OptimizedCommitForExport.Insertions b + i"
  "OptimizedCommitForExport.Deletions (mergeIntoBucket c i d b) =
     OptimizedCommitForExport.Deletions b + d"
  "AuthorEmails (mergeIntoBucket c i d b) =
     (if AuthorEmail c \<in> set (AuthorEmails b) then AuthorEmails b
      else AuthorEmails b @ [AuthorEmail c])"
  "OptimizedCommitForExport.Libraries (mergeIntoBucket c i d b) =
     mergeLibraries (OptimizedCommitForExport.Libraries b) (Commit.Libraries c)"
  "Languages (mergeIntoBucket c i d b) = Languages b"
  "OptimizedCommitForExport.Date (mergeIntoBucket c i d b) = OptimizedCommitForExport.Date b"
  by (simp_all add: mergeIntoBucket_def addUniqueEmailToCommitAuthorEmailsSlice_def contains_iff)

lemma mergeLibraries_other:
  "k \<notin> fst ` set entries \<Longrightarrow> mergeLibraries m entries k = m k"
proof (induction entries arbitrary: m)
  case Nil
  then show ?case by simp
next
  case (Cons e entries)
  obtain k' new where e: "e = (k', new)" by (cases e)
  with Cons.prems have "k' \<noteq> k" "k \<notin> fst ` set entries" by auto
  then show ?case using Cons.IH e by (simp split: option.splits)
qed

lemma mergeLibraries_lookup:
  "distinct (map fst entries) \<Longrightarrow>
   mergeLibraries m entries k =
     (case map_of entries k of
        None \<Rightarrow> m k
      | Some new \<Rightarrow>
          (case m k of
             Some current \<Rightarrow> Some (appendMissing current new)
           | None \<Rightarrow> Some (removeDuplicateStrings new)))"
proof (induction entries arbitrary: m)
  case Nil
  then show ?case by simp
next
  case (Cons e entries)
  obtain k' new where e: "e = (k', new)" by (cases e)
  from Cons.prems e have d: "distinct (map fst entries)" and n: "k' \<notin> fst ` set entries"
    by auto
  show ?case
  proof (cases "k = k'")
    case True
    then show ?thesis using e n by (simp add: mergeLibraries_other split: option.splits)
  next
    case False
    then show ?thesis using e Cons.IH[OF d] by (simp split: option.splits)
  qed
qed

text \<open>
  C1 (the code departs from the claim).  Two commits of the same day, the first with
  a Go file, the second with a Python file.  The second is merged into the bucket of
  the first: the count is 2, the sums are added up, the second author is appended
  and the library lists are united without duplicates; but the bucket's languages
  are still those of the first commit, Python is missing.
\<close>

theorem merge_leaves_languages_unchanged:
  "map Commits (export plainExtractor [commitGo, commitPy]) = [2]
   \<and> map OptimizedCommitForExport.Insertions (export plainExtractor [commitGo, commitPy]) = [15]
   \<and> map OptimizedCommitForExport.Deletions (export plainExtractor [commitGo, commitPy]) = [3]
   \<and> map AuthorEmails (export plainExtractor [commitGo, commitPy])
        = [[''ann@example.org'', ''bob@example.org'']]
   \<and> map (\<lambda>b. OptimizedCommitForExport.Libraries b ''Go'') (export plainExtractor [commitGo, commitPy])
        = [Some [''fmt'', ''os'', ''net'']]
   \<and> map (\<lambda>b. OptimizedCommitForExport.Libraries b ''Python'') (export plainExtractor [commitGo, commitPy])
        = [Some [''re'']]
   \<and> map Languages (export plainExtractor [commitGo, commitPy]) = [[''Go'']]"
  by code_simp

section \<open>Claim C2: order of arrival\<close>

text \<open>
  C2 (the code departs from the claim).  The same two commits of one day in the two
  orders of arrival: the language list of the bucket is that of whichever commit
  arrived first, so the two folds differ.
\<close>

theorem languages_depend_on_arrival_order:
  "map Languages (export plainExtractor [commitGo, commitPy]) = [[''Go'']]
   \<and> map Languages (export plainExtractor [commitPy, commitGo]) = [[''Python'']]"
  by code_simp

section \<open>Claim C3: emissions of an analysis worker\<close>

text \<open>Without a deadline every commit is sent once, followed by one completion signal.\<close>

lemma fileLoop_no_deadline:
  "fst (fileLoop r c None seen files libraries) = []"
proof (induction files arbitrary: seen libraries)
  case Nil
  then show ?case by simp
next
  case (Cons f files)
  then show ?case by (simp split: prod.splits)
qed

lemma analyseCommit_no_deadline:
  "\<exists>c'. fst (analyseCommit r None c) = [ToCommitPipeline c', ToResults]"
proof -
  obtain sent ctx' files libraries where
    f: "fileLoop r
          \<lparr>Hash = Hash c, AuthorName = AuthorName c, AuthorEmail = AuthorEmail c,
           Date = Commit.Date c, ChangedFiles = ChangedFiles c, Libraries = []\<rparr>
          None [] (ChangedFiles c) [] = (sent, ctx', files, libraries)"
    by (metis prod_cases4)
  then have "sent = []" using fileLoop_no_deadline by (metis fst_conv)
  then show ?thesis using f by (simp add: analyseCommit_def)
qed

text \<open>
  C3 (the code departs from the claim).  The deadline has expired and the worker
  receives one commit with two changed files.  The poll before each file sends the
  commit and a completion signal and goes on with the next file; after the loop the
  commit is sent once more.  The commit is sent three times and three completion
  signals follow, where the claim has one of each.
\<close>

theorem expired_deadline_repeats_emission:
  "libraryWorker plainExtractor (Some 0) [commitRaw] =
     [ToCommitPipeline commitRaw, ToResults,
      ToCommitPipeline commitRaw, ToResults,
      ToCommitPipeline commitRaw, ToResults]"
  by code_simp

section \<open>Claim C4: errors while parsing the log output\<close>

lemma scanLine_bad_insertions:
  assumes "m \<noteq> []" "\<not> HasPrefix m BEGIN" "Fields m = insertionsString # others"
    and "Atoi (if insertionsString = ''-'' then ''0'' else insertionsString) = None"
  shows "scanLine st m = Inl (NumError insertionsString)"
  using assms by (cases st) (simp add: scanLine_def)

lemma scanLine_bad_deletions:
  assumes "m \<noteq> []" "\<not> HasPrefix m BEGIN" "Fields m = insertionsString # deletionsString # others"
    and "Atoi (if insertionsString = ''-'' then ''0'' else insertionsString) = Some insertions"
    and "Atoi (if deletionsString = ''-'' then ''0'' else deletionsString) = None"
  shows "scanLine st m = Inl (NumError deletionsString)"
  using assms by (cases st) (simp add: scanLine_def)

lemma scanLine_before_header:
  assumes "m \<noteq> []" "\<not> HasPrefix m BEGIN"
    and "Fields m = insertionsString # deletionsString # fileName # others"
    and "\<not> Contains ''=>'' fileName"
  shows "\<exists>e. scanLine (harvested, None) m = Inl e"
  using assms by (simp add: scanLine_def split: option.splits)

lemma scanLines_blank:
  "\<forall>l \<in> set pre. l = [] \<Longrightarrow> scanLines st (pre @ rest) = scanLines st rest"
proof (induction pre)
  case Nil
  then show ?case by simp
next
  case (Cons l pre)
  then have "scanLine st l = Inr st" by (cases st) (simp add: scanLine_def)
  then show ?case using Cons by simp
qed

lemma scanLines_stops:
  assumes "\<And>st'. \<exists>e. scanLine st' m = Inl e"
  shows "\<exists>e. scanLines st (pre @ m # post) = Inl e"
proof (induction pre arbitrary: st)
  case Nil
  from assms[of st] show ?case by auto
next
  case (Cons l pre)
  show ?case
  proof (cases "scanLine st l")
    case (Inl e)
    then show ?thesis by simp
  next
    case (Inr st')
    then show ?thesis using Cons[of st'] by simp
  qed
qed

lemma getCommits_loop_no_error:
  "getCommits_loop numCPU received st = Some (st', err) \<Longrightarrow> err = None"
  by (induction numCPU received st rule: getCommits_loop.induct) (auto split: if_splits)

lemma getCommits_no_error:
  "getCommits numCPU received = Some (st, err) \<Longrightarrow> err = None"
  using getCommits_loop_no_error by (auto simp: getCommits_def)

text \<open>
  A page that holds a stat row with a field that is no number, or a stat row
  before any header (after blank lines only) whose path the rename test does not
  skip: the worker that parses the page returns an error and sends nothing of it;
  its goroutine prints the error, or the process ends with a panic.
\<close>

lemma unparsable_page_stops_its_worker:
  assumes "gitLog (req.Offset v) (Limit v) = pre @ m # post"
    and "m \<noteq> []"
    and "\<not> HasPrefix m BEGIN"
    and "Fields m = insertionsString # deletionsString # fileName # others"
    and "Atoi (if insertionsString = ''-'' then ''0'' else insertionsString) = None
         \<or> Atoi (if deletionsString = ''-'' then ''0'' else deletionsString) = None
         \<or> ((\<forall>l \<in> set pre. l = []) \<and> \<not> Contains ''=>'' fileName)"
  shows "\<exists>e. parsePage (pre @ m # post) = Inl e
           \<and> commitWorker gitLog (v # jobs) = ([], Some e)
           \<and> workerGoroutine gitLog (v # jobs) =
                 (if e = IndexOutOfRange then None else Some ([], [e]))"
proof -
  have s: "\<exists>e. scanLines ([], None) (pre @ m # post) = Inl e"
  proof (cases "Atoi (if insertionsString = ''-'' then ''0'' else insertionsString)")
    case None
    have "\<And>st'. \<exists>e. scanLine st' m = Inl e"
      using scanLine_bad_insertions[OF assms(2,3,4) None] by blast
    then show ?thesis by (rule scanLines_stops)
  next
    case (Some insertions)
    show ?thesis
    proof (cases "Atoi (if deletionsString = ''-'' then ''0'' else deletionsString)")
      case None
      have "\<And>st'. \<exists>e. scanLine st' m = Inl e"
        using scanLine_bad_deletions[OF assms(2,3,4) Some None] by blast
      then show ?thesis by (rule scanLines_stops)
    next
      case (Some deletions)
      with \<open>Atoi (if insertionsString = ''-'' then ''0'' else insertionsString) = Some insertions\<close>
        assms(5)
      have b: "\<forall>l \<in> set pre. l = []" and n: "\<not> Contains ''=>'' fileName" by auto
      from scanLine_before_header[OF assms(2,3,4) n, of "[]"]
      obtain e where "scanLine ([], None) m = Inl e" by blast
      then show ?thesis using scanLines_blank[OF b, of "([], None)" "m # post"] by simp
    qed
  qed
  then obtain e where e: "scanLines ([], None) (pre @ m # post) = Inl e" by blast
  then have p: "parsePage (pre @ m # post) = Inl e" by (simp add: parsePage_def)
  then have w: "commitWorker gitLog (v # jobs) = ([], Some e)" using assms(1) by simp
  then have g: "workerGoroutine gitLog (v # jobs) =
                 (if e = IndexOutOfRange then None else Some ([], [e]))"
    by (simp add: workerGoroutine_def)
  from p w g show ?thesis by blast
qed

text \<open>
  C4 (the code departs from the claim).  One worker and a log whose second page has
  a stat row with a field that is no number.  The worker has sent the first page
  and returns the error for the second; the goroutine that runs it prints the
  error and ends.  With a time limit, the coordinator, which has received the
  first page, leaves its loop when the deadline expires and returns the commits of
  the first page with no error: the harvest is not aborted, it goes on with
  partial data.  Without a time limit the coordinator waits for ever, also with a
  second worker that has signalled the end; it never returns the error.  And a
  stat row before every header whose path is \<^verbatim>\<open>=\<close> is skipped without any error.
\<close>

theorem harvest_goes_on_after_worker_error:
  "commitWorker sampleLog [\<lparr>Limit = 1000, Offset = 0\<rparr>, \<lparr>Limit = 1000, Offset = 1000\<rparr>]
     = ([Results [commitRaw]], Some (NumError ''x''))
   \<and> workerGoroutine sampleLog [\<lparr>Limit = 1000, Offset = 0\<rparr>, \<lparr>Limit = 1000, Offset = 1000\<rparr>]
     = Some ([Results [commitRaw]], [NumError ''x''])
   \<and> map_option (\<lambda>(st, err). (commits st, issued st, err))
         (getCommits 1 [FromResults [commitRaw], CtxDone])
     = Some ([commitRaw], [\<lparr>Limit = 1000, Offset = 0\<rparr>, \<lparr>Limit = 1000, Offset = 1000\<rparr>], None)
   \<and> getCommits 1 [FromResults [commitRaw]] = None
   \<and> getCommits 2 [FromResults [commitRaw], FromNoMore] = None
   \<and> parsePage [''1 1 =''] = Inr []"
  by code_simp

section \<open>Claim C5: the rename test\<close>

lemma Contains_marker_iff: "Contains ''=>'' f \<longleftrightarrow> f \<in> {[], ''='', ''>'', ''=>''}"
proof (cases f)
  case Nil
  then show ?thesis by simp
next
  case (Cons c cs)
  show ?thesis
  proof (cases cs)
    case Nil
    then show ?thesis using Cons by auto
  next
    case (Cons d ds)
    then show ?thesis using \<open>f = c # cs\<close> by (cases ds) auto
  qed
qed

lemma Fields_from_nonempty: "[] \<notin> set (Fields_from current s)"
  by (induction current s rule: Fields_from.induct) auto

lemma Fields_nonempty: "[] \<notin> set (Fields s)"
  by (simp add: Fields_def Fields_from_nonempty)

text \<open>
  Fields are separated by Unicode white space as well: in a row whose path begins
  with \<^verbatim>\<open>=\<close> and a no-break space (U+00A0), the third field is \<^verbatim>\<open>=\<close>, and the
  row is skipped.
\<close>

lemma no_break_space_separates_fields:
  "Fields [CHR ''1'', CHR 0x09, CHR ''1'', CHR 0x09, CHR ''='', CHR 0xC2, CHR 0xA0, CHR ''x'']
     = [''1'', ''1'', ''='', ''x'']
   \<and> scanLine ([], Some commitUndated)
         [CHR ''1'', CHR 0x09, CHR ''1'', CHR 0x09, CHR ''='', CHR 0xC2, CHR 0xA0, CHR ''x'']
     = Inr ([], Some commitUndated)"
  by code_simp

text \<open>
  The claim C5 as stated fails.  The test asks whether the file name occurs in the
  marker, so it holds for a file name that is the marker itself or one of its two
  characters: a row whose path field is \<^verbatim>\<open>=>\<close> is skipped, the current commit
  keeps its files.  The test is not false for all file names.
\<close>

theorem marker_named_file_is_skipped:
  "Fields ''1 1 =>'' = [''1'', ''1'', ''=>'']
   \<and> Contains ''=>'' ''=>''
   \<and> scanLine ([], Some commitUndated) ''1 1 =>'' = Inr ([], Some commitUndated)
   \<and> Contains ''=>'' ''=''"
  by code_simp

text \<open>
  C5, amended.  For every numstat row with two parsable counts whose path field
  (the third of the fields that white space separates) is none of \<^verbatim>\<open>=\<close>, \<^verbatim>\<open>>\<close> and \<^verbatim>\<open>=>\<close>, the rename test is
  false and the row is appended to the changed files of the current commit, with
  that field as its path; this holds for the rows that describe a rename.  The test
  is true exactly for the empty name and those three names.
\<close>

theorem rename_rows_are_kept:
  assumes "m \<noteq> []"
    and "\<not> HasPrefix m BEGIN"
    and "Fields m = insertionsString # deletionsString # fileName # others"
    and "Atoi (if insertionsString = ''-'' then ''0'' else insertionsString) = Some insertions"
    and "Atoi (if deletionsString = ''-'' then ''0'' else deletionsString) = Some deletions"
    and "fileName \<notin> {''='', ''>'', ''=>''}"
  shows "\<not> Contains ''=>'' fileName
       \<and> scanLine (harvested, Some c) m =
           Inr (harvested,
                Some (c\<lparr>ChangedFiles := ChangedFiles c @
                  [\<lparr>Path = fileName, Insertions = insertions, Deletions = deletions,
                    Language = []\<rparr>]\<rparr>))
       \<and> (\<forall>f. Contains ''=>'' f \<longleftrightarrow> f \<in> {[], ''='', ''>'', ''=>''})"
proof -
  have "fileName \<noteq> []" using Fields_nonempty[of m] assms(3) by auto
  then have n: "\<not> Contains ''=>'' fileName" using assms(6) Contains_marker_iff[of fileName] by blast
  then have "scanLine (harvested, Some c) m =
           Inr (harvested,
                Some (c\<lparr>ChangedFiles := ChangedFiles c @
                  [\<lparr>Path = fileName, Insertions = insertions, Deletions = deletions,
                    Language = []\<rparr>]\<rparr>))"
    using assms(1-5) by (simp add: scanLine_def)
  then show ?thesis using n Contains_marker_iff by blast
qed

theorem rename_rows_are_kept_witness:
  "Fields ''5 2 old.go => new.go'' = [''5'', ''2'', ''old.go'', ''=>'', ''new.go'']
   \<and> \<not> Contains ''=>'' ''old.go''
   \<and> scanLine ([], Some commitUndated) ''5 2 old.go => new.go'' =
       Inr ([], Some (commitUndated\<lparr>ChangedFiles :=
              [\<lparr>Path = ''old.go'', Insertions = 5, Deletions = 2, Language = []\<rparr>]\<rparr>))"
proof -
  let ?m = "''5 2 old.go => new.go''"
  have h1: "?m \<noteq> []" by simp
  have h2: "\<not> HasPrefix ?m BEGIN" by code_simp
  have h3: "Fields ?m = ''5'' # ''2'' # ''old.go'' # [''=>'', ''new.go'']" by code_simp
  have h4: "Atoi (if ''5'' = ''-'' then ''0'' else ''5'') = Some 5" by code_simp
  have h5: "Atoi (if ''2'' = ''-'' then ''0'' else ''2'') = Some 2" by code_simp
  have h6: "''old.go'' \<notin> {''='', ''>'', ''=>''}" by simp
  have e: "ChangedFiles commitUndated = []" by (simp add: commitUndated_def)
  from rename_rows_are_kept [OF h1 h2 h3 h4 h5 h6, of "[]" commitUndated] h3 e
  show ?thesis by simp
qed

section \<open>Claim C6: the day key\<close>

lemma export_two:
  assumes "HashImportant r \<Longrightarrow>
      \<forall>b. OptimizedCommitForExport.Date (Obfuscate r b) = OptimizedCommitForExport.Date b"
  shows "map OptimizedCommitForExport.Date (export r [c1, c2]) =
     (if dayKey (Commit.Date c1) = dayKey (Commit.Date c2) then [dayKey (Commit.Date c1)]
      else [dayKey (Commit.Date c1), dayKey (Commit.Date c2)])"
proof -
  let ?b = "newBucket r c1 (dayKey (Commit.Date c1))
        (fst (scanChangedFiles (ChangedFiles c1) ([], 0, 0)))
        (sum_list (map ChangedFile.Insertions (ChangedFiles c1)))
        (sum_list (map ChangedFile.Deletions (ChangedFiles c1)))"
  have bd: "OptimizedCommitForExport.Date ?b = dayKey (Commit.Date c1)"
    using newBucket_Date[OF assms] by simp
  have e: "export r [c1, c2] = exportCommit r [?b] c2"
    by (simp add: export_def exportCommit_empty)
  show ?thesis
  proof (cases "dayKey (Commit.Date c1) = dayKey (Commit.Date c2)")
    case True
    then show ?thesis using e bd
      by (simp add: exportCommit_single_same mergeIntoBucket_def)
  next
    case False
    then show ?thesis using e bd newBucket_Date[OF assms]
      by (simp add: exportCommit_single_other)
  qed
qed

text \<open>
  The key of a commit with a parseable date, and a run of two commits: the key is
  midnight UTC of the written calendar day, keys agree exactly when the written
  days agree, and the second commit joins the bucket of the first exactly when
  their written days agree.
\<close>

lemma day_key_of_two_commits:
  assumes "time_Parse (Commit.Date c1) = Some t1"
    and "time_Parse (Commit.Date c2) = Some t2"
    and "HashImportant r \<Longrightarrow>
      \<forall>b. OptimizedCommitForExport.Date (Obfuscate r b) = OptimizedCommitForExport.Date b"
  shows "getStartOfDayFromStringDate (Commit.Date c1) =
           \<lparr>Year = Year t1, Month = Month t1, Day = Day t1,
            Hour = 0, Minute = 0, Second = 0, ZoneOffset = 0\<rparr>
       \<and> unixSeconds (getStartOfDayFromStringDate (Commit.Date c1)) =
           daysFromCivil (Year t1) (Month t1) (Day t1) * 86400
       \<and> (ZoneOffset t1 = 0 \<longrightarrow> utcDay t1 = daysFromCivil (Year t1) (Month t1) (Day t1))
       \<and> (dayKey (Commit.Date c1) = dayKey (Commit.Date c2) \<longleftrightarrow>
            Year t1 = Year t2 \<and> Month t1 = Month t2 \<and> Day t1 = Day t2)
       \<and> map OptimizedCommitForExport.Date (export r [c1, c2]) =
           (if Year t1 = Year t2 \<and> Month t1 = Month t2 \<and> Day t1 = Day t2
            then [dayKey (Commit.Date c1)]
            else [dayKey (Commit.Date c1), dayKey (Commit.Date c2)])"
proof -
  have a: "getStartOfDayFromStringDate (Commit.Date c1) =
           \<lparr>Year = Year t1, Month = Month t1, Day = Day t1,
            Hour = 0, Minute = 0, Second = 0, ZoneOffset = 0\<rparr>"
    using assms(1) by (simp add: getStartOfDayFromStringDate_def)
  have b: "unixSeconds (getStartOfDayFromStringDate (Commit.Date c1)) =
           daysFromCivil (Year t1) (Month t1) (Day t1) * 86400"
    by (simp add: a unixSeconds_def)
  have c: "ZoneOffset t1 = 0 \<longrightarrow> utcDay t1 = daysFromCivil (Year t1) (Month t1) (Day t1)"
    using utcDay_offset_zero[OF assms(1)] by simp
  have d: "dayKey (Commit.Date c1) = dayKey (Commit.Date c2) \<longleftrightarrow>
            Year t1 = Year t2 \<and> Month t1 = Month t2 \<and> Day t1 = Day t2"
    by (rule dayKey_eq_iff[OF assms(1,2)])
  have e: "map OptimizedCommitForExport.Date (export r [c1, c2]) =
           (if Year t1 = Year t2 \<and> Month t1 = Month t2 \<and> Day t1 = Day t2
            then [dayKey (Commit.Date c1)]
            else [dayKey (Commit.Date c1), dayKey (Commit.Date c2)])"
    using export_two[OF assms(3), of c1 c2] d by simp
  from a b c d e show ?thesis by blast
qed

text \<open>
  The claim C6 as stated fails.  Two commits whose instants lie in the same UTC day,
  2024-01-02 (04:30 and 05:00 UTC): the first is written with the offset \<open>-0500\<close> on
  the calendar day 2024-01-01.  Its key is 2024-01-01, not the UTC day of its
  instant, and the two commits go to different buckets.
\<close>

theorem day_key_differs_from_utc_day:
  "map_option utcDay (time_Parse (Commit.Date commitLate)) = Some (daysFromCivil 2024 1 2)
   \<and> map_option utcDay (time_Parse (Commit.Date commitNextDay)) = Some (daysFromCivil 2024 1 2)
   \<and> dayKey (Commit.Date commitLate) = ''2024-01-01 00:00:00 +0000 UTC''
   \<and> dayKey (Commit.Date commitNextDay) = ''2024-01-02 00:00:00 +0000 UTC''
   \<and> map OptimizedCommitForExport.Date (export plainExtractor [commitLate, commitNextDay])
       = [''2024-01-01 00:00:00 +0000 UTC'', ''2024-01-02 00:00:00 +0000 UTC'']"
  by code_simp

lemma find_key_Some:
  "k \<in> OptimizedCommitForExport.Date ` set bs \<Longrightarrow>
   \<exists>b. find (\<lambda>b. OptimizedCommitForExport.Date b = k) bs = Some b \<and>
       OptimizedCommitForExport.Date b = k \<and> b \<in> set bs"
  by (induction bs) auto

lemma find_same_bucket_iff:
  assumes "k1 \<in> OptimizedCommitForExport.Date ` set bs"
    and "k2 \<in> OptimizedCommitForExport.Date ` set bs"
  shows "find (\<lambda>b. OptimizedCommitForExport.Date b = k1) bs =
         find (\<lambda>b. OptimizedCommitForExport.Date b = k2) bs \<longleftrightarrow> k1 = k2"
proof
  assume e: "find (\<lambda>b. OptimizedCommitForExport.Date b = k1) bs =
         find (\<lambda>b. OptimizedCommitForExport.Date b = k2) bs"
  from find_key_Some[OF assms(1)] obtain b1 where
    1: "find (\<lambda>b. OptimizedCommitForExport.Date b = k1) bs = Some b1"
       "OptimizedCommitForExport.Date b1 = k1" by blast
  from find_key_Some[OF assms(2)] obtain b2 where
    2: "find (\<lambda>b. OptimizedCommitForExport.Date b = k2) bs = Some b2"
       "OptimizedCommitForExport.Date b2 = k2" by blast
  from e 1 2 show "k1 = k2" by simp
next
  assume "k1 = k2"
  then show "find (\<lambda>b. OptimizedCommitForExport.Date b = k1) bs =
         find (\<lambda>b. OptimizedCommitForExport.Date b = k2) bs" by simp
qed

text \<open>
  C6, amended.  For a commit with a parseable date the day key is midnight UTC of the
  calendar day written in the date string, that is the day of the commit's wall
  clock at its own offset; for a date written with the offset \<open>+0000\<close> this is
  the UTC day that holds the instant.  Two commits have the same key exactly when
  their written calendar days agree.  After any sequence of arrivals there is
  exactly one bucket for every key that occurred, each bucket counts the arrivals
  of its key, and two commits of the run are in the same bucket exactly when their
  written calendar days agree: a commit of another written day has a bucket of its
  own.  (The obfuscation transform is assumed to keep the key and the count of a new
  bucket.)
\<close>

theorem day_key_is_written_calendar_day:
  assumes "time_Parse (Commit.Date c1) = Some t1"
    and "time_Parse (Commit.Date c2) = Some t2"
    and "HashImportant r \<Longrightarrow>
      \<forall>b. OptimizedCommitForExport.Date (Obfuscate r b) = OptimizedCommitForExport.Date b"
    and "HashImportant r \<Longrightarrow> \<forall>b. Commits (Obfuscate r b) = Commits b"
    and "c1 \<in> set arrivals"
    and "c2 \<in> set arrivals"
  shows "getStartOfDayFromStringDate (Commit.Date c1) =
           \<lparr>Year = Year t1, Month = Month t1, Day = Day t1,
            Hour = 0, Minute = 0, Second = 0, ZoneOffset = 0\<rparr>
       \<and> unixSeconds (getStartOfDayFromStringDate (Commit.Date c1)) =
           daysFromCivil (Year t1) (Month t1) (Day t1) * 86400
       \<and> (ZoneOffset t1 = 0 \<longrightarrow> utcDay t1 = daysFromCivil (Year t1) (Month t1) (Day t1))
       \<and> (dayKey (Commit.Date c1) = dayKey (Commit.Date c2) \<longleftrightarrow>
            Year t1 = Year t2 \<and> Month t1 = Month t2 \<and> Day t1 = Day t2)
       \<and> map OptimizedCommitForExport.Date (export r [c1, c2]) =
           (if Year t1 = Year t2 \<and> Month t1 = Month t2 \<and> Day t1 = Day t2
            then [dayKey (Commit.Date c1)]
            else [dayKey (Commit.Date c1), dayKey (Commit.Date c2)])
       \<and> distinct (map OptimizedCommitForExport.Date (export r arrivals))
       \<and> set (map OptimizedCommitForExport.Date (export r arrivals)) =
           (\<lambda>c. dayKey (Commit.Date c)) ` set arrivals
       \<and> (\<forall>b \<in> set (export r arrivals). Commits b =
             of_nat (length (filter (\<lambda>c. dayKey (Commit.Date c) = OptimizedCommitForExport.Date b)
                               arrivals)))
       \<and> (find (\<lambda>b. OptimizedCommitForExport.Date b = dayKey (Commit.Date c1)) (export r arrivals) =
          find (\<lambda>b. OptimizedCommitForExport.Date b = dayKey (Commit.Date c2)) (export r arrivals)
          \<longleftrightarrow> Year t1 = Year t2 \<and> Month t1 = Month t2 \<and> Day t1 = Day t2)
       \<and> find (\<lambda>b. OptimizedCommitForExport.Date b = dayKey (Commit.Date c1)) (export r arrivals)
           \<noteq> None"
proof -
  have obf: "HashImportant r \<Longrightarrow>
      \<forall>b. OptimizedCommitForExport.Date (Obfuscate r b) = OptimizedCommitForExport.Date b \<and>
          Commits (Obfuscate r b) = Commits b"
    using assms(3,4) by simp
  have two: "getStartOfDayFromStringDate (Commit.Date c1) =
           \<lparr>Year = Year t1, Month = Month t1, Day = Day t1,
            Hour = 0, Minute = 0, Second = 0, ZoneOffset = 0\<rparr>
       \<and> unixSeconds (getStartOfDayFromStringDate (Commit.Date c1)) =
           daysFromCivil (Year t1) (Month t1) (Day t1) * 86400
       \<and> (ZoneOffset t1 = 0 \<longrightarrow> utcDay t1 = daysFromCivil (Year t1) (Month t1) (Day t1))
       \<and> (dayKey (Commit.Date c1) = dayKey (Commit.Date c2) \<longleftrightarrow>
            Year t1 = Year t2 \<and> Month t1 = Month t2 \<and> Day t1 = Day t2)
       \<and> map OptimizedCommitForExport.Date (export r [c1, c2]) =
           (if Year t1 = Year t2 \<and> Month t1 = Month t2 \<and> Day t1 = Day t2
            then [dayKey (Commit.Date c1)]
            else [dayKey (Commit.Date c1), dayKey (Commit.Date c2)])"
    by (rule day_key_of_two_commits[OF assms(1,2,3)])
  note inv = export_invariant[OF obf, of arrivals]
  from inv have keys: "OptimizedCommitForExport.Date ` set (export r arrivals) =
           (\<lambda>c. dayKey (Commit.Date c)) ` set arrivals" by simp
  have k1: "dayKey (Commit.Date c1) \<in> OptimizedCommitForExport.Date ` set (export r arrivals)"
    unfolding keys using assms(5) by (rule imageI)
  have k2: "dayKey (Commit.Date c2) \<in> OptimizedCommitForExport.Date ` set (export r arrivals)"
    unfolding keys using assms(6) by (rule imageI)
  have same: "find (\<lambda>b. OptimizedCommitForExport.Date b = dayKey (Commit.Date c1)) (export r arrivals) =
          find (\<lambda>b. OptimizedCommitForExport.Date b = dayKey (Commit.Date c2)) (export r arrivals)
          \<longleftrightarrow> Year t1 = Year t2 \<and> Month t1 = Month t2 \<and> Day t1 = Day t2"
    using find_same_bucket_iff[OF k1 k2] dayKey_eq_iff[OF assms(1,2)] by simp
  have some: "find (\<lambda>b. OptimizedCommitForExport.Date b = dayKey (Commit.Date c1)) (export r arrivals)
           \<noteq> None"
    using find_key_Some[OF k1] by auto
  from two inv same some show ?thesis by blast
qed

theorem day_key_is_written_calendar_day_witness:
  "time_Parse (Commit.Date commitGo) =
     Some \<lparr>Year = 2024, Month = 1, Day = 1, Hour = 10, Minute = 0, Second = 0, ZoneOffset = 0\<rparr>
   \<and> time_Parse (Commit.Date commitPy) =
     Some \<lparr>Year = 2024, Month = 1, Day = 1, Hour = 23, Minute = 0, Second = 0, ZoneOffset = 0\<rparr>
   \<and> time_Parse (Commit.Date commitRaw) =
     Some \<lparr>Year = 2024, Month = 1, Day = 2, Hour = 0, Minute = 1, Second = 0, ZoneOffset = 0\<rparr>
   \<and> utcDay \<lparr>Year = 2024, Month = 1, Day = 1, Hour = 10, Minute = 0, Second = 0, ZoneOffset = 0\<rparr>
       = daysFromCivil 2024 1 1
   \<and> distinct (map OptimizedCommitForExport.Date
         (export anonymisingExtractor [commitGo, commitPy, commitRaw]))
   \<and> map OptimizedCommitForExport.Date (export anonymisingExtractor [commitGo, commitPy, commitRaw])
       = [''2024-01-01 00:00:00 +0000 UTC'', ''2024-01-02 00:00:00 +0000 UTC'']
   \<and> map Commits (export anonymisingExtractor [commitGo, commitPy, commitRaw]) = [2, 1]
   \<and> find (\<lambda>b. OptimizedCommitForExport.Date b = dayKey (Commit.Date commitGo))
         (export anonymisingExtractor [commitGo, commitPy, commitRaw]) =
       find (\<lambda>b. OptimizedCommitForExport.Date b = dayKey (Commit.Date commitPy))
         (export anonymisingExtractor [commitGo, commitPy, commitRaw])
   \<and> find (\<lambda>b. OptimizedCommitForExport.Date b = dayKey (Commit.Date commitPy))
         (export anonymisingExtractor [commitGo, commitPy, commitRaw]) \<noteq>
       find (\<lambda>b. OptimizedCommitForExport.Date b = dayKey (Commit.Date commitRaw))
         (export anonymisingExtractor [commitGo, commitPy, commitRaw])"
proof -
  let ?run = "[commitGo, commitPy, commitRaw]"
  have p1: "time_Parse (Commit.Date commitGo) =
     Some \<lparr>Year = 2024, Month = 1, Day = 1, Hour = 10, Minute = 0, Second = 0, ZoneOffset = 0\<rparr>"
    by code_simp
  have p2: "time_Parse (Commit.Date commitPy) =
     Some \<lparr>Year = 2024, Month = 1, Day = 1, Hour = 23, Minute = 0, Second = 0, ZoneOffset = 0\<rparr>"
    by code_simp
  have p3: "time_Parse (Commit.Date commitRaw) =
     Some \<lparr>Year = 2024, Month = 1, Day = 2, Hour = 0, Minute = 1, Second = 0, ZoneOffset = 0\<rparr>"
    by code_simp
  have h1: "HashImportant anonymisingExtractor \<Longrightarrow>
      \<forall>b. OptimizedCommitForExport.Date (Obfuscate anonymisingExtractor b) = OptimizedCommitForExport.Date b"
    by (simp add: anonymisingExtractor_def)
  have h2: "HashImportant anonymisingExtractor \<Longrightarrow>
      \<forall>b. Commits (Obfuscate anonymisingExtractor b) = Commits b"
    by (simp add: anonymisingExtractor_def)
  have m1: "commitGo \<in> set ?run" and m2: "commitPy \<in> set ?run" and m3: "commitRaw \<in> set ?run"
    by simp_all
  have d: "map OptimizedCommitForExport.Date (export anonymisingExtractor ?run)
       = [''2024-01-01 00:00:00 +0000 UTC'', ''2024-01-02 00:00:00 +0000 UTC'']" by code_simp
  have c: "map Commits (export anonymisingExtractor ?run) = [2, 1]" by code_simp
  note a = day_key_is_written_calendar_day [OF p1 p2 h1 h2 m1 m2]
  note b = day_key_is_written_calendar_day [OF p2 p3 h1 h2 m2 m3]
  from a have u: "utcDay \<lparr>Year = 2024, Month = 1, Day = 1, Hour = 10, Minute = 0, Second = 0, ZoneOffset = 0\<rparr>
       = daysFromCivil 2024 1 1" by simp
  from a have di: "distinct (map OptimizedCommitForExport.Date (export anonymisingExtractor ?run))"
    by blast
  from a have s: "find (\<lambda>b. OptimizedCommitForExport.Date b = dayKey (Commit.Date commitGo))
         (export anonymisingExtractor ?run) =
       find (\<lambda>b. OptimizedCommitForExport.Date b = dayKey (Commit.Date commitPy))
         (export anonymisingExtractor ?run)" by simp
  from b have n: "find (\<lambda>b. OptimizedCommitForExport.Date b = dayKey (Commit.Date commitPy))
         (export anonymisingExtractor ?run) \<noteq>
       find (\<lambda>b. OptimizedCommitForExport.Date b = dayKey (Commit.Date commitRaw))
         (export anonymisingExtractor ?run)" by simp
  from p1 p2 p3 u di d c s n show ?thesis by blast
qed

section \<open>Claim C7: library lists without duplicates\<close>

text \<open>
  C7.  After any sequence of arrivals, hence of bucket creations and merges, no
  per-language library list of any bucket holds an identifier twice.  The
  obfuscation transform is outside the sources; the statement asks of it only that,
  where anonymisation is switched on, it does not introduce duplicates.
\<close>

theorem bucket_libraries_without_duplicates:
  assumes "HashImportant r \<Longrightarrow> \<forall>b. uniqueLibraries b \<longrightarrow> uniqueLibraries (Obfuscate r b)"
    and "bucket \<in> set (export r arrivals)"
    and "OptimizedCommitForExport.Libraries bucket language = Some identifiers"
  shows "distinct identifiers"
proof -
  have "\<forall>b \<in> set (export r arrivals). uniqueLibraries b"
    unfolding export_def using uniqueLibraries_foldl[OF assms(1), of "[]" arrivals] by simp
  then show ?thesis using assms(2,3) by (auto simp: uniqueLibraries_def uniqueLists_def)
qed

theorem bucket_libraries_without_duplicates_witness:
  "OptimizedCommitForExport.Libraries (hd (export anonymisingExtractor [commitGo, commitPy])) ''Go''
     = Some [''fmt'', ''os'', ''net'']
   \<and> distinct [''fmt'', ''os'', ''net'']"
proof -
  have h1: "HashImportant anonymisingExtractor \<Longrightarrow>
      \<forall>b. uniqueLibraries b \<longrightarrow> uniqueLibraries (Obfuscate anonymisingExtractor b)"
    by (simp add: anonymisingExtractor_def uniqueLibraries_def)
  have "length (export anonymisingExtractor [commitGo, commitPy]) = 1"
    by code_simp
  then have h2: "hd (export anonymisingExtractor [commitGo, commitPy])
      \<in> set (export anonymisingExtractor [commitGo, commitPy])"
    by (cases "export anonymisingExtractor [commitGo, commitPy]") auto
  have h3: "OptimizedCommitForExport.Libraries
      (hd (export anonymisingExtractor [commitGo, commitPy])) ''Go'' = Some [''fmt'', ''os'', ''net'']"
    by code_simp
  from bucket_libraries_without_duplicates [OF h1 h2 h3] h3 show ?thesis by simp
qed

section \<open>Claim C8: relative path markers in library identifiers\<close>

lemma Replace_absent:
  "n < 0 \<Longrightarrow> \<not> Contains s old \<Longrightarrow> Replace s old new n = s"
  by (induction s arbitrary: n) auto

lemma Replace_leading:
  "n < 0 \<Longrightarrow> \<not> Contains rest ''../'' \<Longrightarrow>
   Replace (concat (replicate k ''../'') @ rest) ''../'' [] n = rest"
proof (induction k arbitrary: n)
  case 0
  then show ?case by (simp add: Replace_absent)
next
  case (Suc k)
  have "n - 1 < 0" using Suc.prems(1) by simp
  from Suc.IH[OF this Suc.prems(2)] Suc.prems(1) show ?case by simp
qed

text \<open>
  The claim C8 as stated fails.  The sample analyzer reports \<^verbatim>\<open>vendor/../lib\<close>; the
  worker stores \<^verbatim>\<open>vendor/lib\<close>: a marker that is not leading is removed as well.
  And since the text is passed once, what is stored can still begin with a marker.
\<close>

theorem inner_marker_is_removed_too:
  "fst (the (GetAnalyzer plainExtractor ''Go'') ''package main'')
     = [''fmt'', ''../../net/http'', ''vendor/../lib'']
   \<and> snd (analyseFile plainExtractor ''c3''
        \<lparr>Path = ''main.go'', Insertions = 3, Deletions = 1, Language = []\<rparr> [])
     = [(''Go'', [''fmt'', ''net/http'', ''vendor/lib''])]
   \<and> Replace ''..././lib'' ''../'' [] (- 1) = ''../lib''"
  by code_simp

text \<open>
  C8, amended.  For a file that reaches library extraction, the worker appends to
  the library list of the file's language every identifier the analyzer reports,
  each with all occurrences of \<^verbatim>\<open>../\<close> removed that one pass from the left finds,
  wherever they stand.  In particular an identifier made of leading markers and a
  rest without marker is stored as that rest.
\<close>

theorem stored_identifiers_lose_every_marker:
  assumes "Ext (Path fileChange) \<noteq> []"
    and "getFileContent r hash (Path fileChange) = Some contents"
    and "lang = (if ShouldUseFile r (drop 1 (Ext (Path fileChange)))
                 then DetectLanguageFromFile r (Path fileChange) contents
                 else DetectLanguageFromExtension r (drop 1 (Ext (Path fileChange))))"
    and "lang \<noteq> []"
    and "\<not> SkipLibraries r"
    and "GetAnalyzer r lang = Some analyzer"
    and "analyzer contents = (extracted, err)"
  shows "map_of (snd (analyseFile r hash fileChange libraries)) lang =
           Some ((case map_of libraries lang of None \<Rightarrow> [] | Some current \<Rightarrow> current) @
                 map (\<lambda>identifier. Replace identifier ''../'' [] (- 1)) extracted)
       \<and> (\<forall>k rest. \<not> Contains rest ''../'' \<longrightarrow>
             Replace (concat (replicate k ''../'') @ rest) ''../'' [] (- 1) = rest)"
proof -
  have "snd (analyseFile r hash fileChange libraries) =
      AList.update lang
        ((case map_of libraries lang of None \<Rightarrow> [] | Some current \<Rightarrow> current) @
         map (\<lambda>identifier. Replace identifier ''../'' [] (- 1)) extracted) libraries"
  proof (cases "ShouldUseFile r (drop 1 (Ext (Path fileChange)))")
    case True
    with assms(3) have l: "DetectLanguageFromFile r (Path fileChange) contents = lang" by simp
    show ?thesis using assms(1,2,4-7) True l by (simp add: analyseFile_def Let_def)
  next
    case False
    with assms(3) have l: "DetectLanguageFromExtension r (drop 1 (Ext (Path fileChange))) = lang"
      by simp
    show ?thesis using assms(1,2,4-7) False l by (simp add: analyseFile_def Let_def)
  qed
  then show ?thesis by (simp add: AList.update_conv' Replace_leading)
qed

theorem stored_identifiers_lose_every_marker_witness:
  "fst (the (GetAnalyzer plainExtractor ''Go'') ''package main'')
     = [''fmt'', ''../../net/http'', ''vendor/../lib'']
   \<and> map_of (snd (analyseFile plainExtractor ''c3''
        \<lparr>Path = ''main.go'', Insertions = 3, Deletions = 1, Language = []\<rparr> [(''Go'', [''os''])])) ''Go''
     = Some [''os'', ''fmt'', ''net/http'', ''vendor/lib'']
   \<and> Replace ''../../net/http'' ''../'' [] (- 1) = ''net/http''"
proof -
  let ?f = "\<lparr>Path = ''main.go'', Insertions = 3, Deletions = 1, Language = []\<rparr>"
  let ?a = "\<lambda>contents :: string. ([''fmt'', ''../../net/http'', ''vendor/../lib''], False)"
  have h1: "Ext (Path ?f) \<noteq> []" by code_simp
  have h2: "getFileContent plainExtractor ''c3'' (Path ?f) = Some ''package main''"
    by (simp add: plainExtractor_def)
  have e: "drop 1 (Ext (Path ?f)) = ''go''" by code_simp
  have h3: "''Go'' = (if ShouldUseFile plainExtractor (drop 1 (Ext (Path ?f)))
                 then DetectLanguageFromFile plainExtractor (Path ?f) ''package main''
                 else DetectLanguageFromExtension plainExtractor (drop 1 (Ext (Path ?f))))"
    unfolding e by (simp add: plainExtractor_def)
  have h4: "''Go'' \<noteq> []" by simp
  have h5: "\<not> SkipLibraries plainExtractor" by (simp add: plainExtractor_def)
  have h6: "GetAnalyzer plainExtractor ''Go'' = Some ?a" by (simp add: plainExtractor_def)
  have h7: "?a ''package main'' = ([''fmt'', ''../../net/http'', ''vendor/../lib''], False)" by simp
  have n: "\<not> Contains ''net/http'' ''../''" by code_simp
  have c: "concat (replicate 2 ''../'') @ ''net/http'' = ''../../net/http''"
    by (simp add: numeral_2_eq_2)
  have r: "Replace ''vendor/../lib'' ''../'' [] (- 1) = ''vendor/lib''"
    "Replace ''fmt'' ''../'' [] (- 1) = ''fmt''" by code_simp+
  have x: "fst (the (GetAnalyzer plainExtractor ''Go'') ''package main'')
     = [''fmt'', ''../../net/http'', ''vendor/../lib'']" using h6 by simp
  from stored_identifiers_lose_every_marker [OF h1 h2 h3 h4 h5 h6 h7, of "[(''Go'', [''os''])]"]
  have 1: "map_of (snd (analyseFile plainExtractor ''c3'' ?f [(''Go'', [''os''])])) ''Go'' =
           Some ([''os''] @ map (\<lambda>identifier. Replace identifier ''../'' [] (- 1))
                   [''fmt'', ''../../net/http'', ''vendor/../lib''])"
    and 2: "\<forall>k rest. \<not> Contains rest ''../'' \<longrightarrow>
             Replace (concat (replicate k ''../'') @ rest) ''../'' [] (- 1) = rest"
    by simp_all
  from 2 n have 3: "Replace (concat (replicate 2 ''../'') @ ''net/http'') ''../'' [] (- 1) = ''net/http''"
    by blast
  from 1 3 c r x show ?thesis by simp
qed

section \<open>Claim C9: dates that do not parse\<close>

text \<open>
  A header line whose author date does not parse gives a commit with the empty date
  string: the harvester only prints a message.
\<close>

lemma scanLine_header_unparsable_date:
  assumes "HasPrefix m BEGIN"
    and "4 \<le> length (Split (Replace m BEGIN [] 1) SEP)"
    and "time_Parse_git (Split (Replace m BEGIN [] 1) SEP ! 3) = None"
  shows "\<exists>commits' c. scanLine st m = Inr (commits', Some c) \<and> Commit.Date c = []"
proof -
  obtain commits cur where st: "st = (commits, cur)" by (cases st)
  have "m \<noteq> []" using assms(1) by (auto simp: BEGIN_def)
  then show ?thesis using assms st by (simp add: scanLine_def Let_def)
qed

lemma dayKey_zero_iff:
  "dayKey s = ''0001-01-01 00:00:00 +0000 UTC'' \<longleftrightarrow>
   (case time_Parse s of None \<Rightarrow> True | Some t \<Rightarrow> Year t = 1 \<and> Month t = 1 \<and> Day t = 1)"
proof (cases "time_Parse s")
  case None
  then show ?thesis by (simp add: dayKey_unparsable)
next
  case (Some t)
  have z: "''0001-01-01 00:00:00 +0000 UTC'' =
      pad4 1 @ ''-'' @ pad2 1 @ ''-'' @ pad2 1 @ '' 00:00:00 +0000 UTC''"
    by (simp add: pad4_def pad2_def digitChar_def)
  have "dayKey s = ''0001-01-01 00:00:00 +0000 UTC'' \<longleftrightarrow>
      pad4 (Year t) = pad4 1 \<and> pad2 (Month t) = pad2 1 \<and> pad2 (Day t) = pad2 1"
    unfolding z dayKey_parsed[OF Some] by simp
  also have "\<dots> \<longleftrightarrow> Year t = 1 \<and> Month t = 1 \<and> Day t = 1"
    using time_Parse_range[OF Some] pad4_inj[of "Year t" 1] pad2_inj[of "Month t" 1]
      pad2_inj[of "Day t" 1]
    by auto
  finally show ?thesis using Some by simp
qed

lemma filter_key_single:
  "distinct (map OptimizedCommitForExport.Date bs) \<Longrightarrow>
   k \<in> OptimizedCommitForExport.Date ` set bs \<Longrightarrow>
   \<exists>b. filter (\<lambda>b. OptimizedCommitForExport.Date b = k) bs = [b] \<and> b \<in> set bs \<and>
       OptimizedCommitForExport.Date b = k"
proof (induction bs)
  case Nil
  then show ?case by simp
next
  case (Cons a bs)
  show ?case
  proof (cases "OptimizedCommitForExport.Date a = k")
    case True
    then have "k \<notin> OptimizedCommitForExport.Date ` set bs" using Cons.prems(1) by auto
    then have "\<forall>b \<in> set bs. OptimizedCommitForExport.Date b \<noteq> k" by (metis imageI)
    then have "filter (\<lambda>b. OptimizedCommitForExport.Date b = k) bs = []"
      by (simp add: filter_empty_conv)
    then show ?thesis using True by simp
  next
    case False
    then have "k \<in> OptimizedCommitForExport.Date ` set bs" using Cons.prems(2) by auto
    with Cons.IH Cons.prems(1) obtain b where
      "filter (\<lambda>b. OptimizedCommitForExport.Date b = k) bs = [b]" "b \<in> set bs"
      "OptimizedCommitForExport.Date b = k" by auto
    then show ?thesis using False by simp
  qed
qed

lemma distinct_singleton: "distinct xs \<Longrightarrow> set xs = {k} \<Longrightarrow> xs = [k]"
proof (cases xs)
  case Nil
  assume "set xs = {k}" with Nil show ?thesis by simp
next
  case (Cons a ys)
  assume d: "distinct xs" and s: "set xs = {k}"
  from s Cons have a: "a = k" by auto
  from d Cons have na: "a \<notin> set ys" by simp
  from s Cons have sub: "set ys \<subseteq> {k}" by auto
  have "ys = []"
  proof (cases ys)
    case Nil
    then show ?thesis .
  next
    case (Cons y zs)
    then have y: "y \<in> set ys" by simp
    with sub have "y = k" by auto
    with na a y show ?thesis by simp
  qed
  then show ?thesis using Cons a by simp
qed

text \<open>
  C9.  The day key computation discards the parse error and goes on with Go's zero
  time.  So a commit whose date string does not parse in the layout
  \<^verbatim>\<open>"2006-01-02 15:04:05 -0700"\<close> has the zero time as its start of day and the
  first day of year 1 as its key; the empty string, which the harvester stores for
  a header whose author date does not parse, is such a string.  In any run that
  holds such a commit, also one with commits of other days, exactly one bucket has
  this key, and it counts every arrival whose date does not parse (together with
  those written with the date 0001-01-01): none is rejected, none goes to a bucket
  of another day.  When no date of the run parses, this is the only bucket and it
  counts all arrivals.  (The obfuscation transform, outside the sources, is
  assumed to keep the key and the count of a new bucket.)
\<close>

theorem unparsable_dates_share_zero_bucket:
  assumes "c \<in> set arrivals"
    and "time_Parse (Commit.Date c) = None"
    and "HashImportant r \<Longrightarrow>
           \<forall>b. OptimizedCommitForExport.Date (Obfuscate r b) = OptimizedCommitForExport.Date b \<and>
               Commits (Obfuscate r b) = Commits b"
    and "HasPrefix m BEGIN"
    and "4 \<le> length (Split (Replace m BEGIN [] 1) SEP)"
    and "time_Parse_git (Split (Replace m BEGIN [] 1) SEP ! 3) = None"
  shows "(\<exists>commits' h. scanLine st m = Inr (commits', Some h) \<and> Commit.Date h = [])
       \<and> time_Parse [] = None
       \<and> getStartOfDayFromStringDate (Commit.Date c) = zeroTime
       \<and> dayKey (Commit.Date c) = ''0001-01-01 00:00:00 +0000 UTC''
       \<and> (\<exists>b. filter (\<lambda>b. OptimizedCommitForExport.Date b = ''0001-01-01 00:00:00 +0000 UTC'')
                  (export r arrivals) = [b]
              \<and> Commits b =
                  of_nat (length (filter
                    (\<lambda>a. case time_Parse (Commit.Date a) of
                            None \<Rightarrow> True
                          | Some t \<Rightarrow> Year t = 1 \<and> Month t = 1 \<and> Day t = 1) arrivals)))
       \<and> ((\<forall>a \<in> set arrivals. time_Parse (Commit.Date a) = None) \<longrightarrow>
            map OptimizedCommitForExport.Date (export r arrivals) = [''0001-01-01 00:00:00 +0000 UTC'']
            \<and> map Commits (export r arrivals) = [of_nat (length arrivals)])"
proof -
  let ?key = "''0001-01-01 00:00:00 +0000 UTC''"
  let ?zero = "\<lambda>a. case time_Parse (Commit.Date a) of
                            None \<Rightarrow> True
                          | Some t \<Rightarrow> Year t = 1 \<and> Month t = 1 \<and> Day t = 1"
  note inv = export_invariant[OF assms(3), of arrivals]
  have kc: "dayKey (Commit.Date c) = ?key" using assms(2) by (rule dayKey_unparsable)
  from inv have keys: "OptimizedCommitForExport.Date ` set (export r arrivals) =
           (\<lambda>c. dayKey (Commit.Date c)) ` set arrivals" by simp
  have "dayKey (Commit.Date c) \<in> OptimizedCommitForExport.Date ` set (export r arrivals)"
    unfolding keys using assms(1) by (rule imageI)
  then have kin: "?key \<in> OptimizedCommitForExport.Date ` set (export r arrivals)"
    using kc by simp
  from inv have d: "distinct (map OptimizedCommitForExport.Date (export r arrivals))" by blast
  from filter_key_single[OF d kin] obtain b where
    b: "filter (\<lambda>b. OptimizedCommitForExport.Date b = ?key) (export r arrivals) = [b]"
       "b \<in> set (export r arrivals)" "OptimizedCommitForExport.Date b = ?key" by blast
  have feq: "filter (\<lambda>a. dayKey (Commit.Date a) = ?key) arrivals = filter ?zero arrivals"
    by (rule filter_cong) (simp_all add: dayKey_zero_iff)
  from inv b(2) have "Commits b =
      of_nat (length (filter (\<lambda>a. dayKey (Commit.Date a) = OptimizedCommitForExport.Date b) arrivals))"
    by blast
  then have cb: "Commits b = of_nat (length (filter ?zero arrivals))"
    using b(3) feq by simp
  have all: "(\<forall>a \<in> set arrivals. time_Parse (Commit.Date a) = None) \<longrightarrow>
            map OptimizedCommitForExport.Date (export r arrivals) = [?key]
            \<and> map Commits (export r arrivals) = [of_nat (length arrivals)]"
  proof
    assume u: "\<forall>a \<in> set arrivals. time_Parse (Commit.Date a) = None"
    then have "\<forall>a \<in> set arrivals. dayKey (Commit.Date a) = ?key"
      by (simp add: dayKey_unparsable)
    then have "(\<lambda>c. dayKey (Commit.Date c)) ` set arrivals = {?key}"
      using assms(1) by auto
    then have "set (map OptimizedCommitForExport.Date (export r arrivals)) = {?key}"
      using keys by simp
    from distinct_singleton[OF d this]
    have md: "map OptimizedCommitForExport.Date (export r arrivals) = [?key]" .
    then obtain b' where e: "export r arrivals = [b']" by (cases "export r arrivals") auto
    with b(1) md have "b' = b" by simp
    have "filter ?zero arrivals = arrivals" using u by (simp add: filter_id_conv)
    then show "map OptimizedCommitForExport.Date (export r arrivals) = [?key]
            \<and> map Commits (export r arrivals) = [of_nat (length arrivals)]"
      using md e \<open>b' = b\<close> cb by simp
  qed
  have "time_Parse [] = None" by (simp add: time_Parse_def parseLongYear_def)
  moreover have "getStartOfDayFromStringDate (Commit.Date c) = zeroTime"
    using assms(2) by (rule getStartOfDay_unparsable)
  ultimately show ?thesis
    using scanLine_header_unparsable_date[OF assms(4,5,6), of st] kc b(1) cb all by blast
qed

theorem unparsable_dates_share_zero_bucket_witness:
  "scanLine ([], None) undatedHeader = Inr ([], Some commitUndated)
   \<and> time_Parse (Commit.Date commitUndated) = None
   \<and> time_Parse (Commit.Date commitMisdated) = None
   \<and> getStartOfDayFromStringDate (Commit.Date commitMisdated) = zeroTime
   \<and> map OptimizedCommitForExport.Date
       (export anonymisingExtractor [commitGo, commitUndated, commitPy, commitMisdated])
       = [''2024-01-01 00:00:00 +0000 UTC'', ''0001-01-01 00:00:00 +0000 UTC'']
   \<and> map Commits (export anonymisingExtractor [commitGo, commitUndated, commitPy, commitMisdated])
       = [2, 2]
   \<and> map Commits (filter (\<lambda>b. OptimizedCommitForExport.Date b = ''0001-01-01 00:00:00 +0000 UTC'')
         (export anonymisingExtractor [commitGo, commitUndated, commitPy, commitMisdated])) = [2]
   \<and> map OptimizedCommitForExport.Date (export anonymisingExtractor [commitUndated, commitMisdated])
       = [''0001-01-01 00:00:00 +0000 UTC'']
   \<and> map Commits (export anonymisingExtractor [commitUndated, commitMisdated]) = [2]"
proof -
  let ?run = "[commitGo, commitUndated, commitPy, commitMisdated]"
  let ?zero = "\<lambda>a. case time_Parse (Commit.Date a) of
                            None \<Rightarrow> True
                          | Some t \<Rightarrow> Year t = 1 \<and> Month t = 1 \<and> Day t = 1"
  have p1: "time_Parse (Commit.Date commitUndated) = None" by code_simp
  have p2: "time_Parse (Commit.Date commitMisdated) = None" by code_simp
  have m1: "commitMisdated \<in> set ?run" by simp
  have m2: "commitMisdated \<in> set [commitUndated, commitMisdated]" by simp
  have h3: "HashImportant anonymisingExtractor \<Longrightarrow>
           \<forall>b. OptimizedCommitForExport.Date (Obfuscate anonymisingExtractor b) = OptimizedCommitForExport.Date b \<and>
               Commits (Obfuscate anonymisingExtractor b) = Commits b"
    by (simp add: anonymisingExtractor_def)
  have h4: "HasPrefix undatedHeader BEGIN" by code_simp
  have h5: "4 \<le> length (Split (Replace undatedHeader BEGIN [] 1) SEP)" by code_simp
  have h6: "time_Parse_git (Split (Replace undatedHeader BEGIN [] 1) SEP ! 3) = None" by code_simp
  have s: "scanLine ([], None) undatedHeader = Inr ([], Some commitUndated)" by code_simp
  have d: "map OptimizedCommitForExport.Date (export anonymisingExtractor ?run)
       = [''2024-01-01 00:00:00 +0000 UTC'', ''0001-01-01 00:00:00 +0000 UTC'']" by code_simp
  have c: "map Commits (export anonymisingExtractor ?run) = [2, 2]" by code_simp
  have n: "length (filter ?zero ?run) = 2" by code_simp
  note a = unparsable_dates_share_zero_bucket [OF m1 p2 h3 h4 h5 h6, of "([], None)"]
  from a obtain b where
    b: "filter (\<lambda>b. OptimizedCommitForExport.Date b = ''0001-01-01 00:00:00 +0000 UTC'')
          (export anonymisingExtractor ?run) = [b]"
       "Commits b = of_nat (length (filter ?zero ?run))" by blast
  from b n have f: "map Commits (filter (\<lambda>b. OptimizedCommitForExport.Date b = ''0001-01-01 00:00:00 +0000 UTC'')
         (export anonymisingExtractor ?run)) = [2]" by simp
  from a have z: "getStartOfDayFromStringDate (Commit.Date commitMisdated) = zeroTime" by blast
  note a2 = unparsable_dates_share_zero_bucket [OF m2 p2 h3 h4 h5 h6, of "([], None)"]
  have u: "\<forall>a \<in> set [commitUndated, commitMisdated]. time_Parse (Commit.Date a) = None"
    using p1 p2 by simp
  from a2 u have o: "map OptimizedCommitForExport.Date (export anonymisingExtractor [commitUndated, commitMisdated])
       = [''0001-01-01 00:00:00 +0000 UTC'']
     \<and> map Commits (export anonymisingExtractor [commitUndated, commitMisdated]) = [2]"
    by simp
  from s p1 p2 z d c f o show ?thesis by blast
qed

section \<open>Claim C10: line counts of files without language\<close>

text \<open>
  C10.  Every commit a worker sends has the changed files of the commit it was given,
  each with its path and its two counts: analysis only sets languages and gathers
  libraries, also for a file without extension or of unknown language (lemmas
  \<open>analyseFile_no_extension\<close>, \<open>analyseFile_unknown_language\<close>).  When the
  aggregator receives such a commit, the totals of the bucket of its day grow by the
  sums of the insertions and of the deletions over all its changed files, whatever
  their language; a day without bucket starts at zero.  (The obfuscation transform
  is assumed to keep key and totals of a new bucket.)
\<close>

theorem every_file_counts_towards_day_totals:
  assumes "ToCommitPipeline e \<in> set (libraryWorker r ctx jobs)"
    and "HashImportant r \<Longrightarrow>
      \<forall>b. OptimizedCommitForExport.Date (Obfuscate r b) = OptimizedCommitForExport.Date b \<and>
          OptimizedCommitForExport.Insertions (Obfuscate r b) = OptimizedCommitForExport.Insertions b \<and>
          OptimizedCommitForExport.Deletions (Obfuscate r b) = OptimizedCommitForExport.Deletions b"
  shows "(\<exists>c \<in> set jobs. map fileCounts (ChangedFiles e) = map fileCounts (ChangedFiles c) \<and>
                          Commit.Date e = Commit.Date c)
       \<and> dayTotals (dayKey (Commit.Date e)) (exportCommit r buckets e) =
           (fst (dayTotals (dayKey (Commit.Date e)) buckets)
              + sum_list (map ChangedFile.Insertions (ChangedFiles e)),
            snd (dayTotals (dayKey (Commit.Date e)) buckets)
              + sum_list (map ChangedFile.Deletions (ChangedFiles e)))"
  using libraryWorker_counts[OF assms(1)] dayTotals_exportCommit[OF assms(2), of e buckets]
  by simp

theorem every_file_counts_towards_day_totals_witness:
  "libraryWorker anonymisingExtractor None [commitRaw] = [ToCommitPipeline commitAnalysed, ToResults]
   \<and> map Language (ChangedFiles commitAnalysed) = [''Go'', []]
   \<and> Ext ''README'' = []
   \<and> map fileCounts (ChangedFiles commitAnalysed) = [(''main.go'', 3, 1), (''README'', 7, 0)]
   \<and> dayTotals ''2024-01-02 00:00:00 +0000 UTC'' [] = (0, 0)
   \<and> dayTotals ''2024-01-02 00:00:00 +0000 UTC'' (exportCommit anonymisingExtractor [] commitAnalysed)
       = (10, 1)"
proof -
  have w: "libraryWorker anonymisingExtractor None [commitRaw] = [ToCommitPipeline commitAnalysed, ToResults]"
    by code_simp
  then have h1: "ToCommitPipeline commitAnalysed \<in> set (libraryWorker anonymisingExtractor None [commitRaw])"
    by simp
  have h2: "HashImportant anonymisingExtractor \<Longrightarrow>
      \<forall>b. OptimizedCommitForExport.Date (Obfuscate anonymisingExtractor b) = OptimizedCommitForExport.Date b \<and>
          OptimizedCommitForExport.Insertions (Obfuscate anonymisingExtractor b) = OptimizedCommitForExport.Insertions b \<and>
          OptimizedCommitForExport.Deletions (Obfuscate anonymisingExtractor b) = OptimizedCommitForExport.Deletions b"
    by (simp add: anonymisingExtractor_def)
  have k: "dayKey (Commit.Date commitAnalysed) = ''2024-01-02 00:00:00 +0000 UTC''" by code_simp
  have l: "map Language (ChangedFiles commitAnalysed) = [''Go'', []]" by code_simp
  have x: "Ext ''README'' = []" by code_simp
  have c: "map fileCounts (ChangedFiles commitAnalysed) = [(''main.go'', 3, 1), (''README'', 7, 0)]"
    by code_simp
  have s: "sum_list (map ChangedFile.Insertions (ChangedFiles commitAnalysed)) = 10"
    "sum_list (map ChangedFile.Deletions (ChangedFiles commitAnalysed)) = 1"
    by (simp_all add: commitAnalysed_def)
  have z: "dayTotals ''2024-01-02 00:00:00 +0000 UTC'' [] = (0, 0)" by (simp add: dayTotals_def)
  from every_file_counts_towards_day_totals [OF h1 h2, of "[]"] w k l x c s z
  show ?thesis by simp
qed

end
